theory Spec2Isabelle
  imports Complex_Main "HOL-Library.Char_ord" "HOL-Library.List_Lexorder"
    "HOL-Library.Log_Nat" "HOL-Library.AList"
begin

section \<open>Strings\<close>

text \<open>
  Python's \<^verbatim>\<open>str.upper()\<close> and \<^verbatim>\<open>str.strip()\<close>, on ASCII text: a \<^typ>\<open>char\<close> is a
  byte, and station identifiers, product names and line labels are ASCII. Letters
  \<^verbatim>\<open>a\<close>..\<^verbatim>\<open>z\<close> are upper-cased, every other byte is kept. The whitespace that
  \<^verbatim>\<open>strip\<close> removes is tab, line feed, vertical tab, form feed, carriage return, the four
  separators 28..31 and the space.
\<close>

definition upper_char :: "char \<Rightarrow> char" where
  "upper_char c =
     (let n = (of_char c :: nat) in if 97 \<le> n \<and> n \<le> 122 then char_of (n - 32) else c)"

definition upper :: "string \<Rightarrow> string" where
  "upper s = map upper_char s"

definition is_space :: "char \<Rightarrow> bool" where
  "is_space c =
     (let n = (of_char c :: nat) in (9 \<le> n \<and> n \<le> 13) \<or> (28 \<le> n \<and> n \<le> 32))"

definition strip :: "string \<Rightarrow> string" where
  "strip s = rev (dropWhile is_space (rev (dropWhile is_space s)))"

section \<open>models.py\<close>

record Station =
  st_id :: string
  st_name :: string
  st_place :: "string option"
  st_latitude :: "rat option"
  st_longitude :: "rat option"
  st_diva_id :: "int option"
  st_tariff_zones :: "string option"
  st_products :: "string list option"

section \<open>ingest.py: filter\_stations\_by\_products\<close>

text \<open>
  \<^verbatim>\<open>
  def filter_stations_by_products(stations, products):
      if not products or "ALL" in products:
          return list(stations)
      products = {p.upper() for p in products}
      out = []
      for s in stations:
          if not s.products:
              continue
          s_prods = {p.upper() for p in s.products}
          if s_prods & products:
              out.append(s)
      return out
  \<close>
  The requested products are \<^verbatim>\<open>Optional[Set[str]]\<close>: \<open>None\<close>, or a set. The loop is
  \<open>filter_loop\<close>, whose first argument is the already upper-cased requested set and whose
  last argument is the list \<^verbatim>\<open>out\<close>.
\<close>

fun filter_loop :: "string set \<Rightarrow> Station list \<Rightarrow> Station list \<Rightarrow> Station list" where
  "filter_loop products [] out = out"
| "filter_loop products (s # ss) out =
     (case st_products s of
        None \<Rightarrow> filter_loop products ss out
      | Some ps \<Rightarrow>
          if ps = [] then filter_loop products ss out
          else if upper ` set ps \<inter> products \<noteq> {} then filter_loop products ss (out @ [s])
          else filter_loop products ss out)"

definition filter_stations_by_products :: "Station list \<Rightarrow> string set option \<Rightarrow> Station list" where
  "filter_stations_by_products stations products =
     (case products of
        None \<Rightarrow> stations
      | Some P \<Rightarrow>
          if P = {} \<or> ''ALL'' \<in> P then stations
          else filter_loop (upper ` P) stations [])"

text \<open>
  The property the specification names: the declared product set of a station intersects
  the requested products, both compared in upper case.
\<close>

definition products_intersect :: "string set \<Rightarrow> Station \<Rightarrow> bool" where
  "products_intersect P s =
     (case st_products s of
        None \<Rightarrow> False
      | Some ps \<Rightarrow> upper ` set ps \<inter> upper ` P \<noteq> {})"

text \<open>The four stations of the repository's test \<^verbatim>\<open>test_filter_stations_by_products\<close>.\<close>

definition mk_station :: "string \<Rightarrow> string \<Rightarrow> string list option \<Rightarrow> Station" where
  "mk_station i n ps =
     \<lparr>st_id = i, st_name = n, st_place = None, st_latitude = None, st_longitude = None,
      st_diva_id = None, st_tariff_zones = None, st_products = ps\<rparr>"

definition test_stations :: "Station list" where
  "test_stations =
     [mk_station ''s1'' ''Alpha'' (Some [''TRAM'']),
      mk_station ''s2'' ''Beta'' (Some [''BUS'', ''TRAM'']),
      mk_station ''s3'' ''Gamma'' (Some [''UBAHN'']),
      mk_station ''s4'' ''Delta'' None]"

section \<open>Python numbers\<close>

text \<open>
  Python's \<^verbatim>\<open>float\<close> is an IEEE 754 double. A finite double is a rational number, so the
  model keeps doubles as \<^typ>\<open>rat\<close> and rounds where Python rounds: \<open>round_to_double\<close> is
  rounding to the nearest double, ties to even, with 53 significant bits, subnormals
  below \<open>2 powi (-1022)\<close> and \<open>None\<close> where the result leaves the finite range: the
  rounded value \<open>m * 2 powi e\<close> reaches \<open>2 ^ 1024\<close> when the bits of \<open>m\<close> and the
  exponent \<open>e\<close> add up to more than 1024. It is
  what \<^verbatim>\<open>float(n)\<close> does for an integer, what the true division \<^verbatim>\<open>a / b\<close> of two
  integers does, and what parsing a JSON number with a fraction or an exponent does.
  \<open>ilog2 q\<close> is the exponent of the leading bit of a positive rational.
\<close>

definition ilog2 :: "rat \<Rightarrow> int" where
  "ilog2 q =
     (let (a, b) = quotient_of q; k = bitlen a - bitlen b
      in if 2 powi k \<le> q then k else k - 1)"

definition round_half_even :: "rat \<Rightarrow> int" where
  "round_half_even x =
     (let f = \<lfloor>x\<rfloor>; r = x - of_int f
      in if r < 1 / 2 then f else if 1 / 2 < r then f + 1 else if even f then f else f + 1)"

definition round_to_double :: "rat \<Rightarrow> rat option" where
  "round_to_double q =
     (if q = 0 then Some 0
      else
        let e = max (ilog2 \<bar>q\<bar> - 52) (- 1074);
            m = round_half_even (\<bar>q\<bar> / 2 powi e);
            r = of_int m * 2 powi e
        in if 1024 < bitlen m + e then None else Some (sgn q * r))"

text \<open>\<^verbatim>\<open>int(x)\<close> of a finite double truncates towards zero.\<close>

definition trunc :: "rat \<Rightarrow> int" where
  "trunc x = (if 0 \<le> x then \<lfloor>x\<rfloor> else \<lceil>x\<rceil>)"

text \<open>\<^verbatim>\<open>round(x)\<close> of a finite double, with no digits given, is the nearest integer, ties to
  even; \<^verbatim>\<open>a / b\<close> of two integers is the correctly rounded quotient, or raises
  \<^verbatim>\<open>OverflowError\<close>, or \<^verbatim>\<open>ZeroDivisionError\<close>.\<close>

datatype py_error = OverflowError | ZeroDivisionError

definition py_round :: "rat \<Rightarrow> int" where
  "py_round x = round_half_even x"

definition py_truediv :: "int \<Rightarrow> int \<Rightarrow> py_error + rat" where
  "py_truediv a b =
     (if b = 0 then Inl ZeroDivisionError
      else case round_to_double (of_int a / of_int b) of
             None \<Rightarrow> Inl OverflowError
           | Some f \<Rightarrow> Inr f)"

section \<open>departures.py\<close>

text \<open>
  A timestamp of the upstream JSON: \<^verbatim>\<open>null\<close> (or a missing key, which \<^verbatim>\<open>item.get\<close> reads
  as \<^verbatim>\<open>None\<close>), an integer literal, a number literal with a fraction or an exponent (kept
  with its exact value; Python's parser rounds it to a double), or one of the literals
  \<^verbatim>\<open>NaN\<close>, \<^verbatim>\<open>Infinity\<close>, \<^verbatim>\<open>-Infinity\<close> that Python's parser accepts. Strings, booleans,
  arrays and objects in the place of a timestamp are left out of the model.
\<close>

datatype jvalue = JNull | JInt int | JFloat rat | JNonFinite

text \<open>Python's truth value of such a value, and \<^verbatim>\<open>a or b\<close>.\<close>

fun truthy :: "jvalue \<Rightarrow> bool" where
  "truthy JNull = False"
| "truthy (JInt v) = (v \<noteq> 0)"
| "truthy (JFloat x) = (round_to_double x \<noteq> Some 0)"
| "truthy JNonFinite = True"

definition py_or :: "jvalue \<Rightarrow> jvalue \<Rightarrow> jvalue" where
  "py_or a b = (if truthy a then a else b)"

definition py_or_int :: "int option \<Rightarrow> int option \<Rightarrow> int option" where
  "py_or_int a b = (case a of None \<Rightarrow> b | Some v \<Rightarrow> if v \<noteq> 0 then Some v else b)"

definition py_or_str :: "string option \<Rightarrow> string option \<Rightarrow> string option" where
  "py_or_str a b = (case a of None \<Rightarrow> b | Some v \<Rightarrow> if v \<noteq> [] then Some v else b)"

text \<open>
  \<^verbatim>\<open>
  def _normalize_epoch_seconds(value):
      if value is None:
          return None
      try:
          ivalue = int(float(value))
      except Exception:
          return None
      if ivalue > 10_000_000_000:
          ivalue //= 1000
      return ivalue
  \<close>
  \<open>int_of_float_of\<close> is \<^verbatim>\<open>int(float(value))\<close>, \<open>None\<close> where it raises: \<^verbatim>\<open>float\<close> of an
  integer beyond the doubles' range, \<^verbatim>\<open>int\<close> of an infinity or a NaN.
\<close>

fun int_of_float_of :: "jvalue \<Rightarrow> int option" where
  "int_of_float_of JNull = None"
| "int_of_float_of (JInt v) = map_option trunc (round_to_double (of_int v))"
| "int_of_float_of (JFloat x) = map_option trunc (round_to_double x)"
| "int_of_float_of JNonFinite = None"

definition normalize_epoch_seconds :: "jvalue \<Rightarrow> int option" where
  "normalize_epoch_seconds value =
     (if value = JNull then None
      else case int_of_float_of value of
             None \<Rightarrow> None
           | Some ivalue \<Rightarrow> Some (if ivalue > 10000000000 then ivalue div 1000 else ivalue))"

record Departure =
  station_id :: string
  planned_departure_time :: "int option"
  realtime_departure_time :: "int option"
  delay_in_minutes :: "int option"
  transport_type :: "string option"
  label :: "string option"
  destination :: "string option"
  cancelled :: bool
  platform :: "string option"
  realtime :: bool
  fetched_at :: int

text \<open>
  One record of the upstream response, by the keys \<^verbatim>\<open>fetch_departures\<close> reads. \<open>None\<close> is
  a missing key or a \<^verbatim>\<open>null\<close>: \<^verbatim>\<open>item.get\<close> gives \<^verbatim>\<open>None\<close> for both. The delay is an
  integer, the texts are strings, the flags are booleans, as the \<^verbatim>\<open>Departure\<close> model
  declares them, and the constructor \<^verbatim>\<open>Departure(...)\<close> accepts every value of these types.
\<close>

record item =
  j_planned_departure_time :: jvalue
  j_plannedDepartureTime :: jvalue
  j_realtime_departure_time :: jvalue
  j_realtimeDepartureTime :: jvalue
  j_delay_in_minutes :: "int option"
  j_delayInMinutes :: "int option"
  j_transport_type :: "string option"
  j_transportType :: "string option"
  j_label :: "string option"
  j_destination :: "string option"
  j_cancelled :: "bool option"
  j_platform :: "string option"
  j_realtime :: "bool option"

text \<open>
  The body of the loop of \<^verbatim>\<open>fetch_departures\<close>:
  \<^verbatim>\<open>
  planned = _normalize_epoch_seconds(
      item.get("planned_departure_time") or item.get("plannedDepartureTime"))
  realtime = _normalize_epoch_seconds(
      item.get("realtime_departure_time") or item.get("realtimeDepartureTime"))
  delay = item.get("delay_in_minutes") or item.get("delayInMinutes")
  if delay is None and planned is not None and realtime is not None:
      delay = int(round((realtime - planned) / 60))
  ...
  dep = Departure(station_id=station_id, planned_departure_time=planned, ...)
  \<close>
  The division raises where the quotient is beyond the doubles; the exception leaves
  \<^verbatim>\<open>fetch_departures\<close>.
\<close>

definition derive_delay :: "int option \<Rightarrow> int option \<Rightarrow> int option \<Rightarrow> py_error + int option" where
  "derive_delay delay planned_t realtime_t =
     (case (delay, planned_t, realtime_t) of
        (None, Some p, Some r) \<Rightarrow>
          (case py_truediv (r - p) 60 of
             Inl e \<Rightarrow> Inl e
           | Inr f \<Rightarrow> Inr (Some (py_round f)))
      | _ \<Rightarrow> Inr delay)"

definition departure_of_item :: "string \<Rightarrow> int \<Rightarrow> item \<Rightarrow> py_error + Departure" where
  "departure_of_item sid now it =
     (let planned_t = normalize_epoch_seconds
            (py_or (j_planned_departure_time it) (j_plannedDepartureTime it));
          realtime_t = normalize_epoch_seconds
            (py_or (j_realtime_departure_time it) (j_realtimeDepartureTime it));
          delay = py_or_int (j_delay_in_minutes it) (j_delayInMinutes it)
      in case derive_delay delay planned_t realtime_t of
           Inl e \<Rightarrow> Inl e
         | Inr delay' \<Rightarrow>
             Inr \<lparr>station_id = sid,
                  planned_departure_time = planned_t,
                  realtime_departure_time = realtime_t,
                  delay_in_minutes = delay',
                  transport_type = py_or_str (j_transport_type it) (j_transportType it),
                  label = j_label it,
                  destination = j_destination it,
                  cancelled = (case j_cancelled it of None \<Rightarrow> False | Some b \<Rightarrow> b),
                  platform = j_platform it,
                  realtime = (case j_realtime it of None \<Rightarrow> False | Some b \<Rightarrow> b),
                  fetched_at = now\<rparr>)"

text \<open>
  \<^verbatim>\<open>fetch_departures(station_id)\<close>, from the decoded response \<open>data\<close> on and with the
  clock reading \<open>now\<close> taken before the loop; \<open>departures\<close> is the list built so far.
\<close>

fun fetch_loop :: "string \<Rightarrow> int \<Rightarrow> item list \<Rightarrow> Departure list \<Rightarrow> py_error + Departure list" where
  "fetch_loop sid now [] departures = Inr departures"
| "fetch_loop sid now (it # data) departures =
     (case departure_of_item sid now it of
        Inl e \<Rightarrow> Inl e
      | Inr dep \<Rightarrow> fetch_loop sid now data (departures @ [dep]))"

definition fetch_departures :: "string \<Rightarrow> int \<Rightarrow> item list \<Rightarrow> py_error + Departure list" where
  "fetch_departures sid now data = fetch_loop sid now data []"

text \<open>
  The record of the repository's test \<^verbatim>\<open>test_fetch_departures_computes_delay\<close>, with
  the two timestamps and the two delay keys left open.
\<close>

definition mk_item :: "jvalue \<Rightarrow> jvalue \<Rightarrow> int option \<Rightarrow> int option \<Rightarrow> item" where
  "mk_item planned_t realtime_t delay_snake delay_camel =
     \<lparr>j_planned_departure_time = planned_t, j_plannedDepartureTime = JNull,
      j_realtime_departure_time = realtime_t, j_realtimeDepartureTime = JNull,
      j_delay_in_minutes = delay_snake, j_delayInMinutes = delay_camel,
      j_transport_type = Some ''TRAM'', j_transportType = None,
      j_label = Some ''T17'', j_destination = Some ''Central'',
      j_cancelled = Some False, j_platform = None, j_realtime = Some True\<rparr>"

text \<open>
  What the specification says of the delay of a departure for which upstream supplied
  none: with both timestamps present it is \<^verbatim>\<open>round((realtime - planned) / 60)\<close>, the
  rounded quotient of Python's division, which is the integer nearest to the exact
  quotient, ties to even, as long as the difference is within \<open>2 ^ 53\<close>, and 5 for a
  difference of 300 seconds; with a timestamp absent it is absent.
\<close>

definition delay_derived :: "Departure \<Rightarrow> bool" where
  "delay_derived dep \<longleftrightarrow>
     (case (planned_departure_time dep, realtime_departure_time dep) of
        (Some p, Some r) \<Rightarrow>
          (\<exists>f. py_truediv (r - p) 60 = Inr f \<and> delay_in_minutes dep = Some (py_round f))
          \<and> (\<bar>r - p\<bar> \<le> 2 ^ 53 \<longrightarrow>
                delay_in_minutes dep = Some (round_half_even (of_int (r - p) / 60)))
          \<and> (r = p + 300 \<longrightarrow> delay_in_minutes dep = Some 5)
      | _ \<Rightarrow> delay_in_minutes dep = None)"

section \<open>db.py and the persistence session\<close>

text \<open>
  The table \<^verbatim>\<open>departures_raw\<close> holds the fields of a \<^verbatim>\<open>Departure\<close> and a surrogate key
  that no code reads; a row is modelled by the \<^typ>\<open>Departure\<close> it was built from. Its
  constraint \<^verbatim>\<open>uq_departure_identity\<close> is on \<^verbatim>\<open>(station_id, transport_type, label,
  destination, planned_departure_time)\<close>. Four of the columns are nullable, and in SQLite
  (the default \<^verbatim>\<open>db_url\<close>), as in standard SQL, a \<^verbatim>\<open>NULL\<close> is distinct from every value
  in a uniqueness constraint: two rows collide when the five columns agree and none of
  them is \<^verbatim>\<open>NULL\<close>. No other constraint of the table can fail there: \<^verbatim>\<open>station_id\<close> and
  \<^verbatim>\<open>fetched_at\<close> are never \<^verbatim>\<open>NULL\<close>, and SQLite does not enforce the foreign key to
  \<^verbatim>\<open>stations\<close> unless asked to, which the repository does not do.
\<close>

definition same_identity :: "Departure \<Rightarrow> Departure \<Rightarrow> bool" where
  "same_identity a b \<longleftrightarrow>
     station_id a = station_id b
     \<and> transport_type a \<noteq> None \<and> transport_type a = transport_type b
     \<and> label a \<noteq> None \<and> label a = label b
     \<and> destination a \<noteq> None \<and> destination a = destination b
     \<and> planned_departure_time a \<noteq> None
     \<and> planned_departure_time a = planned_departure_time b"

definition violates_uq :: "Departure list \<Rightarrow> Departure \<Rightarrow> bool" where
  "violates_uq rows rec \<longleftrightarrow> (\<exists>r \<in> set rows. same_identity r rec)"

text \<open>
  A SQLAlchemy session, made by \<^verbatim>\<open>sessionmaker(autoflush=False, autocommit=False)\<close>:
  \<^item> \<open>db_rows\<close>: the committed rows of the table;
  \<^item> \<open>txn_rows\<close>: the rows the open transaction has inserted (flushed, not committed);
  \<^item> \<open>pending\<close>: the objects given to \<^verbatim>\<open>session.add\<close> and not flushed yet.

  \<^verbatim>\<open>session.flush()\<close> sends one \<^verbatim>\<open>INSERT\<close> for each pending object, inside the session's
  transaction, and raises \<^verbatim>\<open>IntegrityError\<close> at the first one that violates the constraint.
  \<^verbatim>\<open>session.rollback()\<close> rolls the session's transaction back: every row inserted since
  the last commit is undone and the objects added since then are expunged. No savepoint
  (\<^verbatim>\<open>begin_nested\<close>) is opened anywhere in the repository. \<^verbatim>\<open>session.commit()\<close> flushes,
  then makes the rows of the transaction durable.
\<close>

record session =
  db_rows :: "Departure list"
  txn_rows :: "Departure list"
  pending :: "Departure list"

datatype db_error = IntegrityError

definition new_session :: "Departure list \<Rightarrow> session" where
  "new_session db = \<lparr>db_rows = db, txn_rows = [], pending = []\<rparr>"

definition session_add :: "session \<Rightarrow> Departure \<Rightarrow> session" where
  "session_add s rec = s\<lparr>pending := pending s @ [rec]\<rparr>"

fun insert_rows :: "Departure list \<Rightarrow> Departure list \<Rightarrow> Departure list \<Rightarrow> db_error + Departure list" where
  "insert_rows db txn [] = Inr txn"
| "insert_rows db txn (rec # recs) =
     (if violates_uq (db @ txn) rec then Inl IntegrityError
      else insert_rows db (txn @ [rec]) recs)"

definition session_flush :: "session \<Rightarrow> db_error + session" where
  "session_flush s =
     (case insert_rows (db_rows s) (txn_rows s) (pending s) of
        Inl e \<Rightarrow> Inl e
      | Inr txn \<Rightarrow> Inr (s\<lparr>txn_rows := txn, pending := []\<rparr>))"

definition session_rollback :: "session \<Rightarrow> session" where
  "session_rollback s = s\<lparr>txn_rows := [], pending := []\<rparr>"

definition session_commit :: "session \<Rightarrow> db_error + session" where
  "session_commit s =
     (case session_flush s of
        Inl e \<Rightarrow> Inl e
      | Inr s' \<Rightarrow> Inr (s'\<lparr>db_rows := db_rows s' @ txn_rows s', txn_rows := []\<rparr>))"

section \<open>ingest.py: insert\_departures and the persistence of a pass\<close>

text \<open>
  \<^verbatim>\<open>
  def insert_departures(session, departures):
      inserted = 0
      skipped = 0
      for d in departures:
          rec = DepartureRawOrm(station_id=d.station_id, ...)
          session.add(rec)
          try:
              session.flush()
              inserted += 1
          except IntegrityError:
              session.rollback()
              skipped += 1
      return inserted, skipped
  \<close>
  The session is mutated in place; the model returns it with the two counters.
\<close>

fun insert_loop :: "session \<Rightarrow> Departure list \<Rightarrow> int \<Rightarrow> int \<Rightarrow> session \<times> int \<times> int" where
  "insert_loop s [] inserted skipped = (s, inserted, skipped)"
| "insert_loop s (d # ds) inserted skipped =
     (let s1 = session_add s d
      in case session_flush s1 of
           Inr s2 \<Rightarrow> insert_loop s2 ds (inserted + 1) skipped
         | Inl IntegrityError \<Rightarrow> insert_loop (session_rollback s1) ds inserted (skipped + 1))"

definition insert_departures :: "session \<Rightarrow> Departure list \<Rightarrow> session \<times> int \<times> int" where
  "insert_departures s departures = insert_loop s departures 0 0"

text \<open>
  The last block of \<^verbatim>\<open>ingest_departures_for_products\<close>, after every fetch has completed:
  \<^verbatim>\<open>
  with Session() as session:
      for station_id, deps in results:
          ins, skip = insert_departures(session, deps)
          rows_inserted += ins
          rows_skipped += skip
          stations_processed += 1
      session.commit()
  return stations_processed, rows_inserted, rows_skipped
  \<close>
  \<open>persist_results db results\<close> is that block on a database holding the rows \<open>db\<close>; it
  returns the rows the database holds after the commit, and the three counters.
\<close>

fun persist_loop ::
  "session \<Rightarrow> (string \<times> Departure list) list \<Rightarrow> int \<Rightarrow> int \<Rightarrow> int \<Rightarrow> session \<times> int \<times> int \<times> int" where
  "persist_loop s [] stations_processed rows_inserted rows_skipped =
     (s, stations_processed, rows_inserted, rows_skipped)"
| "persist_loop s ((sid, deps) # results) stations_processed rows_inserted rows_skipped =
     (case insert_departures s deps of
        (s', ins, skip) \<Rightarrow>
          persist_loop s' results (stations_processed + 1) (rows_inserted + ins) (rows_skipped + skip))"

definition persist_results ::
  "Departure list \<Rightarrow> (string \<times> Departure list) list \<Rightarrow> db_error + (Departure list \<times> int \<times> int \<times> int)" where
  "persist_results db results =
     (case persist_loop (new_session db) results 0 0 0 of
        (s, stations_processed, rows_inserted, rows_skipped) \<Rightarrow>
          (case session_commit s of
             Inl e \<Rightarrow> Inl e
           | Inr s' \<Rightarrow> Inr (db_rows s', stations_processed, rows_inserted, rows_skipped)))"

text \<open>
  The repository's test \<^verbatim>\<open>test_insert_departures_dedup\<close>, on a database holding \<open>db\<close>:
  \<^verbatim>\<open>
  with Session() as session:
      ins, skip = insert_departures(session, deps)
      session.commit()
  \<close>
\<close>

definition insert_and_commit ::
  "Departure list \<Rightarrow> Departure list \<Rightarrow> db_error + (Departure list \<times> int \<times> int)" where
  "insert_and_commit db deps =
     (case insert_departures (new_session db) deps of
        (s, ins, skip) \<Rightarrow>
          (case session_commit s of
             Inl e \<Rightarrow> Inl e
           | Inr s' \<Rightarrow> Inr (db_rows s', ins, skip)))"

definition mk_departure :: "string \<Rightarrow> string \<Rightarrow> string \<Rightarrow> string \<Rightarrow> int \<Rightarrow> int \<Rightarrow> Departure" where
  "mk_departure sid ttype lab dest planned_t fetched =
     \<lparr>station_id = sid,
      planned_departure_time = Some planned_t,
      realtime_departure_time = Some (planned_t + 300),
      delay_in_minutes = Some 5,
      transport_type = Some ttype,
      label = Some lab,
      destination = Some dest,
      cancelled = False,
      platform = None,
      realtime = True,
      fetched_at = fetched\<rparr>"

section \<open>poller.py\<close>

text \<open>
  \<^verbatim>\<open>
  backoff = 1
  while not stop_flag["stop"]:
      t0 = time.time()
      try:
          ... = ingest_departures_for_products(...)
          print(...)
          backoff = 1  # reset on success
      except Exception as e:
          print(f"Error during ingest: {e}")
          time.sleep(backoff)
          backoff = min(backoff * 2, 60)

      elapsed = time.time() - t0
      sleep_time = max(0.0, polling_interval_seconds - elapsed)
      # Early exit if stop requested
      if stop_flag["stop"]:
          break
      time.sleep(sleep_time)
  \<close>
  Time is a logical clock: \<open>now\<close> is what \<^verbatim>\<open>time.time()\<close> reads, \<^verbatim>\<open>time.sleep(d)\<close> advances
  it by \<open>d\<close> and is logged in \<open>sleeps\<close>, an ingestion pass advances it by the pass's
  duration, and every other statement takes no time. Clock values are exact rationals.
  What the world does in one iteration is a \<open>pass_event\<close>: whether the pass returned or
  raised, how long it took, and whether a stop signal arrived before the check that
  follows the pass or during the sleep that ends the iteration.
\<close>

record pass_event =
  pass_ok :: bool
  pass_duration :: rat
  stop_before_check :: bool
  stop_during_sleep :: bool

record poller_state =
  backoff :: int
  now :: rat
  sleeps :: "rat list"
  stop :: bool

definition time_sleep :: "rat \<Rightarrow> poller_state \<Rightarrow> poller_state" where
  "time_sleep d st = st\<lparr>now := now st + d, sleeps := sleeps st @ [d]\<rparr>"

definition poller_iteration :: "int \<Rightarrow> poller_state \<Rightarrow> pass_event \<Rightarrow> poller_state" where
  "poller_iteration polling_interval_seconds st ev =
     (let t0 = now st;
          st1 = st\<lparr>now := now st + pass_duration ev\<rparr>;
          st2 = (if pass_ok ev then st1\<lparr>backoff := 1\<rparr>
                 else (time_sleep (of_int (backoff st1)) st1)
                        \<lparr>backoff := min (backoff st1 * 2) 60\<rparr>);
          st3 = st2\<lparr>stop := stop st2 \<or> stop_before_check ev\<rparr>;
          elapsed = now st3 - t0;
          sleep_time = max 0 (of_int polling_interval_seconds - elapsed)
      in if stop st3 then st3
         else (time_sleep sleep_time st3)\<lparr>stop := stop_during_sleep ev\<rparr>)"

fun poller_loop :: "int \<Rightarrow> poller_state \<Rightarrow> pass_event list \<Rightarrow> poller_state" where
  "poller_loop polling_interval_seconds st [] = st"
| "poller_loop polling_interval_seconds st (ev # evs) =
     (if stop st then st
      else poller_loop polling_interval_seconds (poller_iteration polling_interval_seconds st ev) evs)"

definition run_poller :: "int \<Rightarrow> rat \<Rightarrow> pass_event list \<Rightarrow> poller_state" where
  "run_poller polling_interval_seconds start evs =
     poller_loop polling_interval_seconds
       \<lparr>backoff = 1, now = start, sleeps = [], stop = False\<rparr> evs"

section \<open>gtfs\_index.py\<close>

text \<open>
  The four tables of the static feed, as \<^verbatim>\<open>csv.DictReader\<close> gives them: one dictionary
  per row, of which the code reads the columns below. \<open>None\<close> is a column the file does
  not have or a cell a short row does not reach (\<^verbatim>\<open>row.get\<close> gives \<^verbatim>\<open>None\<close> for the
  first, and finds the value \<^verbatim>\<open>None\<close> for the second); an empty cell is the empty string.
\<close>

record route_row =
  r_route_id :: "string option"
  r_route_type :: "string option"
  r_route_short_name :: "string option"

record trip_row =
  t_route_id :: "string option"
  t_trip_id :: "string option"

record stop_time_row =
  stt_trip_id :: "string option"
  stt_stop_id :: "string option"

record stop_row =
  s_stop_id :: "string option"
  s_parent_station :: "string option"

definition ROUTE_TYPE_TO_PRODUCT :: "string \<Rightarrow> string option" where
  "ROUTE_TYPE_TO_PRODUCT =
     map_of [(''0'', ''TRAM''), (''1'', ''UBAHN''), (''2'', ''SBAHN''), (''3'', ''BUS''),
             (''900'', ''TRAM'')]"

text \<open>\<^verbatim>\<open>(row.get(key) or "")\<close> for a text column.\<close>

definition or_empty :: "string option \<Rightarrow> string" where
  "or_empty v = (case v of None \<Rightarrow> [] | Some x \<Rightarrow> x)"

text \<open>
  \<^verbatim>\<open>
  def base3(x):
      parts = x.split(":")
      return ":".join(parts[:3]) if len(parts) >= 3 else x
  \<close>
\<close>

fun split_colon :: "string \<Rightarrow> string list" where
  "split_colon [] = [[]]"
| "split_colon (c # cs) =
     (if c = CHR '':'' then [] # split_colon cs
      else case split_colon cs of
             [] \<Rightarrow> [[c]]
           | p # ps \<Rightarrow> (c # p) # ps)"

fun join_colon :: "string list \<Rightarrow> string" where
  "join_colon [] = []"
| "join_colon [p] = p"
| "join_colon (p # q # ps) = p @ '':'' @ join_colon (q # ps)"

definition base3 :: "string \<Rightarrow> string" where
  "base3 x =
     (let parts = split_colon x
      in if 3 \<le> length parts then join_colon (take 3 parts) else x)"

text \<open>
  A Python \<^verbatim>\<open>dict\<close> that the code iterates, or returns, is an association list in
  insertion order: \<open>AList.update\<close> overwrites a key where it stands and appends a new
  one, as an assignment to \<^verbatim>\<open>d[k]\<close> does. A \<^verbatim>\<open>dict\<close> that is only looked up is a map. A
  Python \<^verbatim>\<open>set\<close> is a set; the order in which a \<^verbatim>\<open>for\<close> loop visits its elements depends
  on the strings' hashes, which CPython salts anew in every process, so the order is a
  parameter \<open>it\<close> of the model: \<open>it S\<close> is the list of the elements of \<open>S\<close> as the loop
  meets them. \<open>iteration_order it\<close> says that \<open>it\<close> visits every element of a finite set,
  and nothing else.
\<close>

definition iteration_order :: "(string set \<Rightarrow> string list) \<Rightarrow> bool" where
  "iteration_order it \<longleftrightarrow> (\<forall>S. finite S \<longrightarrow> set (it S) = S)"

definition get_set :: "(string \<times> string set) list \<Rightarrow> string \<Rightarrow> string set" where
  "get_set d k = (case map_of d k of None \<Rightarrow> {} | Some S \<Rightarrow> S)"

text \<open>
  \<^verbatim>\<open>
  for r in routes:
      r_type = ROUTE_TYPE_TO_PRODUCT.get(r.get("route_type", ""))
      r_label = (r.get("route_short_name") or "").strip().upper()
      if products and (r_type not in products):
          continue
      if labels and (r_label not in labels):
          continue
      rid = r.get("route_id")
      if not rid:
          continue
      route_ids.add(rid)
      if r_type:
          route_product[rid] = r_type
  \<close>
  Here \<open>products\<close> and \<open>labels\<close> are the filters after their normalisation: \<open>None\<close>, or a
  set that is not empty.
\<close>

definition route_type_of :: "route_row \<Rightarrow> string option" where
  "route_type_of r = ROUTE_TYPE_TO_PRODUCT (or_empty (r_route_type r))"

definition route_label_of :: "route_row \<Rightarrow> string" where
  "route_label_of r = upper (strip (or_empty (r_route_short_name r)))"

definition route_step ::
  "string set option \<Rightarrow> string set option \<Rightarrow> route_row \<Rightarrow>
   string set \<times> (string \<Rightarrow> string option) \<Rightarrow> string set \<times> (string \<Rightarrow> string option)" where
  "route_step products labels r acc =
     (case acc of (route_ids, route_product) \<Rightarrow>
        let r_type = route_type_of r;
            r_label = route_label_of r
        in if (case products of
                 None \<Rightarrow> False
               | Some P \<Rightarrow> (case r_type of None \<Rightarrow> True | Some t \<Rightarrow> t \<notin> P)) then acc
           else if (case labels of None \<Rightarrow> False | Some L \<Rightarrow> r_label \<notin> L) then acc
           else case r_route_id r of
                  None \<Rightarrow> acc
                | Some rid \<Rightarrow>
                    if rid = [] then acc
                    else (insert rid route_ids,
                          case r_type of
                            None \<Rightarrow> route_product
                          | Some t \<Rightarrow> if t = [] then route_product else route_product(rid \<mapsto> t)))"

text \<open>
  \<^verbatim>\<open>
  for t in trips:
      rid = t.get("route_id")
      if rid not in route_ids:
          continue
      trip_id = t.get("trip_id")
      if not trip_id:
          continue
      route_trips.setdefault(rid, set()).add(trip_id)
  \<close>
\<close>

definition trip_step ::
  "string set \<Rightarrow> trip_row \<Rightarrow> (string \<times> string set) list \<Rightarrow> (string \<times> string set) list" where
  "trip_step route_ids t route_trips =
     (case t_route_id t of
        None \<Rightarrow> route_trips
      | Some rid \<Rightarrow>
          if rid \<notin> route_ids then route_trips
          else case t_trip_id t of
                 None \<Rightarrow> route_trips
               | Some trip_id \<Rightarrow>
                   if trip_id = [] then route_trips
                   else AList.update rid (insert trip_id (get_set route_trips rid)) route_trips)"

text \<open>
  \<^verbatim>\<open>
  for st in stop_times:
      trip_id = st.get("trip_id")
      stop_id = st.get("stop_id")
      if trip_id and stop_id:
          trip_stops.setdefault(trip_id, set()).add(stop_id)
  \<close>
\<close>

definition lookup_set :: "(string \<Rightarrow> string set option) \<Rightarrow> string \<Rightarrow> string set" where
  "lookup_set m k = (case m k of None \<Rightarrow> {} | Some S \<Rightarrow> S)"

definition stop_time_step ::
  "stop_time_row \<Rightarrow> (string \<Rightarrow> string set option) \<Rightarrow> (string \<Rightarrow> string set option)" where
  "stop_time_step st trip_stops =
     (case (stt_trip_id st, stt_stop_id st) of
        (Some trip_id, Some stop_id) \<Rightarrow>
          if trip_id \<noteq> [] \<and> stop_id \<noteq> []
          then trip_stops(trip_id \<mapsto> insert stop_id (lookup_set trip_stops trip_id))
          else trip_stops
      | _ \<Rightarrow> trip_stops)"

text \<open>
  \<^verbatim>\<open>
  for rid, tids in route_trips.items():
      all_stops = set()
      for tid in tids:
          all_stops |= trip_stops.get(tid, set())
      route_stops[rid] = all_stops
  \<close>
\<close>

definition all_stops_of ::
  "(string set \<Rightarrow> string list) \<Rightarrow> (string \<Rightarrow> string set option) \<Rightarrow> string set \<Rightarrow> string set" where
  "all_stops_of it trip_stops tids =
     fold (\<lambda>tid all_stops. all_stops \<union> lookup_set trip_stops tid) (it tids) {}"

definition route_stops_step ::
  "(string set \<Rightarrow> string list) \<Rightarrow> (string \<Rightarrow> string set option) \<Rightarrow> string \<times> string set \<Rightarrow>
   (string \<times> string set) list \<Rightarrow> (string \<times> string set) list" where
  "route_stops_step it trip_stops item route_stops =
     (case item of (rid, tids) \<Rightarrow> AList.update rid (all_stops_of it trip_stops tids) route_stops)"

text \<open>
  \<^verbatim>\<open>
  for s in stations:
      key = base3(s.id)
      station_base3_map.setdefault(key, set()).add(s.id)
  ...
  stop_lookup = {s.get("stop_id"): s for s in stops if s.get("stop_id")}
  \<close>
\<close>

definition station_step ::
  "Station \<Rightarrow> (string \<Rightarrow> string set option) \<Rightarrow> (string \<Rightarrow> string set option)" where
  "station_step s station_base3_map =
     (let key = base3 (st_id s)
      in station_base3_map(key \<mapsto> insert (st_id s) (lookup_set station_base3_map key)))"

definition stop_lookup_step ::
  "stop_row \<Rightarrow> (string \<Rightarrow> stop_row option) \<Rightarrow> (string \<Rightarrow> stop_row option)" where
  "stop_lookup_step s stop_lookup =
     (case s_stop_id s of
        None \<Rightarrow> stop_lookup
      | Some sid \<Rightarrow> if sid = [] then stop_lookup else stop_lookup(sid \<mapsto> s))"

text \<open>
  The body of the last loop, for one item \<^verbatim>\<open>(rid, sids)\<close> of \<^verbatim>\<open>route_stops\<close>:
  \<^verbatim>\<open>
  prod = route_product.get(rid)
  r = next((x for x in routes if x.get("route_id") == rid), None)
  if r is None:
      continue
  label = (r.get("route_short_name") or "").strip().upper()
  if not label or not prod:
      continue
  base3_keys = set()
  for sid in sids:
      sinfo = stop_lookup.get(sid)
      if not sinfo:
          continue
      parent = (sinfo.get("parent_station") or "").strip()
      use_id = parent if parent else sid
      base3_keys.add(base3(use_id))
  selected_ids = set()
  for k in base3_keys:
      selected_ids |= station_base3_map.get(k, set())
  if prod:
      curr = set(mapping.setdefault(prod, {}).get(label, []))
      mapping[prod][label] = sorted(curr | set(selected_ids))
  curr_all = set(mapping.setdefault("ALL", {}).get(label, []))
  mapping["ALL"][label] = sorted(curr_all | set(selected_ids))
  \<close>
  \<^verbatim>\<open>sorted\<close> of a set of strings is the list of its elements in ascending order, each
  once; strings compare by their characters' codes, the first difference deciding.
\<close>

definition base3_keys_of ::
  "(string set \<Rightarrow> string list) \<Rightarrow> (string \<Rightarrow> stop_row option) \<Rightarrow> string set \<Rightarrow> string set" where
  "base3_keys_of it stop_lookup sids =
     fold (\<lambda>sid base3_keys.
            case stop_lookup sid of
              None \<Rightarrow> base3_keys
            | Some sinfo \<Rightarrow>
                let parent = strip (or_empty (s_parent_station sinfo));
                    use_id = (if parent \<noteq> [] then parent else sid)
                in insert (base3 use_id) base3_keys)
          (it sids) {}"

definition selected_ids_of ::
  "(string set \<Rightarrow> string list) \<Rightarrow> (string \<Rightarrow> string set option) \<Rightarrow> string set \<Rightarrow> string set" where
  "selected_ids_of it station_base3_map base3_keys =
     fold (\<lambda>k selected_ids. selected_ids \<union> lookup_set station_base3_map k) (it base3_keys) {}"

type_synonym label_mapping = "(string \<times> (string \<times> string list) list) list"

definition store_ids :: "string \<Rightarrow> string \<Rightarrow> string set \<Rightarrow> label_mapping \<Rightarrow> label_mapping" where
  "store_ids product lab selected_ids mapping =
     (let inner = (case map_of mapping product of None \<Rightarrow> [] | Some m \<Rightarrow> m);
          curr = set (case map_of inner lab of None \<Rightarrow> [] | Some ids \<Rightarrow> ids)
      in AList.update product
           (AList.update lab (sorted_list_of_set (curr \<union> selected_ids)) inner) mapping)"

definition mapping_step ::
  "(string set \<Rightarrow> string list) \<Rightarrow> route_row list \<Rightarrow> (string \<Rightarrow> string option) \<Rightarrow>
   (string \<Rightarrow> stop_row option) \<Rightarrow> (string \<Rightarrow> string set option) \<Rightarrow>
   string \<times> string set \<Rightarrow> label_mapping \<Rightarrow> label_mapping" where
  "mapping_step it routes route_product stop_lookup station_base3_map item mapping =
     (case item of (rid, sids) \<Rightarrow>
        let product = route_product rid
        in case find (\<lambda>x. r_route_id x = Some rid) routes of
             None \<Rightarrow> mapping
           | Some r \<Rightarrow>
               let lab = route_label_of r
               in if lab = [] then mapping
                  else case product of
                         None \<Rightarrow> mapping
                       | Some p \<Rightarrow>
                           if p = [] then mapping
                           else
                             let base3_keys = base3_keys_of it stop_lookup sids;
                                 selected_ids = selected_ids_of it station_base3_map base3_keys
                             in store_ids ''ALL'' lab selected_ids
                                  (store_ids p lab selected_ids mapping))"

text \<open>
  \<^verbatim>\<open>build_label_index(gtfs_source, products, labels, stations_cache, distance_threshold_m)\<close>,
  from the four tables read out of the archive and the stations read out of the cache.
  The filters are normalised first:
  \<^verbatim>\<open>
  products = {p.upper() for p in products} if products else None
  labels = {str(l).strip().upper() for l in labels} if labels else None
  \<close>
  The distance threshold is not read by the function.
\<close>

record GtfsIndex =
  mapping :: label_mapping
  source :: string

definition norm_products :: "string set option \<Rightarrow> string set option" where
  "norm_products products =
     (case products of
        None \<Rightarrow> None
      | Some P \<Rightarrow> if P = {} then None else Some (upper ` P))"

definition norm_labels :: "string set option \<Rightarrow> string set option" where
  "norm_labels labels =
     (case labels of
        None \<Rightarrow> None
      | Some L \<Rightarrow> if L = {} then None else Some ((\<lambda>l. upper (strip l)) ` L))"

definition build_label_index ::
  "(string set \<Rightarrow> string list) \<Rightarrow> string \<Rightarrow> string set option \<Rightarrow> string set option \<Rightarrow>
   route_row list \<Rightarrow> trip_row list \<Rightarrow> stop_time_row list \<Rightarrow> stop_row list \<Rightarrow> Station list \<Rightarrow>
   GtfsIndex" where
  "build_label_index it gtfs_source products labels routes trips stop_times stops stations =
     (let (route_ids, route_product) =
            fold (route_step (norm_products products) (norm_labels labels)) routes
              ({}, Map.empty);
          route_trips = fold (trip_step route_ids) trips [];
          trip_stops = fold stop_time_step stop_times Map.empty;
          route_stops = fold (route_stops_step it trip_stops) route_trips [];
          station_base3_map = fold station_step stations Map.empty;
          stop_lookup = fold stop_lookup_step stops Map.empty
      in \<lparr>mapping =
            fold (mapping_step it routes route_product stop_lookup station_base3_map)
              route_stops [],
          source = gtfs_source\<rparr>)"

text \<open>
  The notions of the specification. A route is known by its \<^verbatim>\<open>route_id\<close>, as the last loop
  of \<^verbatim>\<open>build_label_index\<close> looks it up: \<open>unmapped_route routes rid\<close> says that the type of
  every row of \<^verbatim>\<open>routes.txt\<close> with this id has no entry in \<open>ROUTE_TYPE_TO_PRODUCT\<close>, and
  \<open>without_route rid routes\<close> is the table without the rows of this id. \<open>sorted_lists\<close>
  says that every list of station ids of a mapping is in ascending order and free of
  duplicates.
\<close>

definition unmapped_route :: "route_row list \<Rightarrow> string \<Rightarrow> bool" where
  "unmapped_route routes rid \<longleftrightarrow>
     (\<forall>r \<in> set routes. r_route_id r = Some rid \<longrightarrow> route_type_of r = None)"

definition without_route :: "string \<Rightarrow> route_row list \<Rightarrow> route_row list" where
  "without_route rid routes = filter (\<lambda>r. r_route_id r \<noteq> Some rid) routes"

definition sorted_lists :: "label_mapping \<Rightarrow> bool" where
  "sorted_lists m \<longleftrightarrow>
     (\<forall>(product, inner) \<in> set m. \<forall>(lab, ids) \<in> set inner. sorted ids \<and> distinct ids)"

text \<open>
  For the proofs: the keys that one stop id adds to \<^verbatim>\<open>base3_keys\<close>, and the finiteness
  of the sets a dictionary holds.
\<close>

definition stop_key :: "(string \<Rightarrow> stop_row option) \<Rightarrow> string \<Rightarrow> string set" where
  "stop_key sl sid =
     (case sl sid of
        None \<Rightarrow> {}
      | Some sinfo \<Rightarrow>
          {base3 (if strip (or_empty (s_parent_station sinfo)) \<noteq> []
                  then strip (or_empty (s_parent_station sinfo)) else sid)})"

definition finite_values :: "(string \<times> string set) list \<Rightarrow> bool" where
  "finite_values al \<longleftrightarrow> (\<forall>(k, S) \<in> set al. finite S)"

definition finite_range :: "(string \<Rightarrow> string set option) \<Rightarrow> bool" where
  "finite_range m \<longleftrightarrow> (\<forall>k S. m k = Some S \<longrightarrow> finite S)"

text \<open>
  A small feed: the tram route R1, labelled 19 with blanks around, with two trips; the
  route R2 of type 7, which the lookup table does not have, with one trip; three stops,
  one under a parent station; three stations in the cache, not in order.
\<close>

definition ex_routes :: "route_row list" where
  "ex_routes =
     [\<lparr>r_route_id = Some ''R1'', r_route_type = Some ''0'', r_route_short_name = Some '' 19 ''\<rparr>,
      \<lparr>r_route_id = Some ''R2'', r_route_type = Some ''7'', r_route_short_name = Some ''F1''\<rparr>]"

definition ex_trips :: "trip_row list" where
  "ex_trips =
     [\<lparr>t_route_id = Some ''R1'', t_trip_id = Some ''T1''\<rparr>,
      \<lparr>t_route_id = Some ''R2'', t_trip_id = Some ''T2''\<rparr>,
      \<lparr>t_route_id = Some ''R1'', t_trip_id = Some ''T3''\<rparr>]"

definition ex_stop_times :: "stop_time_row list" where
  "ex_stop_times =
     [\<lparr>stt_trip_id = Some ''T1'', stt_stop_id = Some ''de:1:10:1:1''\<rparr>,
      \<lparr>stt_trip_id = Some ''T3'', stt_stop_id = Some ''de:1:11:2''\<rparr>,
      \<lparr>stt_trip_id = Some ''T2'', stt_stop_id = Some ''de:1:12''\<rparr>]"

definition ex_stops :: "stop_row list" where
  "ex_stops =
     [\<lparr>s_stop_id = Some ''de:1:10:1:1'', s_parent_station = Some ''de:1:10''\<rparr>,
      \<lparr>s_stop_id = Some ''de:1:11:2'', s_parent_station = Some ''''\<rparr>,
      \<lparr>s_stop_id = Some ''de:1:12'', s_parent_station = None\<rparr>]"

definition ex_stations :: "Station list" where
  "ex_stations =
     [mk_station ''de:1:11'' ''Beta'' None, mk_station ''de:1:10'' ''Alpha'' None,
      mk_station ''de:1:12'' ''Gamma'' None]"

section \<open>Station product filtering\<close>

lemma filter_loop_filter:
  "filter_loop (upper ` P) ss out = out @ filter (products_intersect P) ss"
  by (induction ss arbitrary: out) (auto simp: products_intersect_def split: option.splits)

text \<open>
  C7, as the code has it. For a requested set that is not empty and does not hold
  \<^verbatim>\<open>"ALL"\<close>, the result is exactly the stations, in their order, whose declared products
  intersect the requested ones, compared in upper case; a requested set holding \<^verbatim>\<open>"ALL"\<close>
  returns every station, also one with no declared products.
\<close>

theorem filter_stations_by_products_keeps_intersecting:
  "(P \<noteq> {} \<and> ''ALL'' \<notin> P \<longrightarrow>
      filter_stations_by_products stations (Some P) = filter (products_intersect P) stations)
   \<and> (''ALL'' \<in> P \<longrightarrow> filter_stations_by_products stations (Some P) = stations)"
  by (simp add: filter_stations_by_products_def filter_loop_filter)

theorem filter_stations_by_products_keeps_intersecting_witness:
  "map st_id (filter_stations_by_products test_stations (Some {''TRAM''})) = [''s1'', ''s2'']
   \<and> filter_stations_by_products test_stations (Some {''ALL''}) = test_stations"
proof -
  have a: "{''TRAM''} \<noteq> ({} :: string set) \<and> ''ALL'' \<notin> {''TRAM''}"
    by simp
  have f: "map st_id (filter (products_intersect {''TRAM''}) test_stations) = [''s1'', ''s2'']"
    by code_simp
  from filter_stations_by_products_keeps_intersecting [of "{''TRAM''}" test_stations]
    filter_stations_by_products_keeps_intersecting [of "{''ALL''}" test_stations] a f
  show ?thesis by simp
qed

text \<open>
  C7 as the specification states it, for every requested set, fails at the empty set: the
  station declares \<^verbatim>\<open>TRAM\<close>, nothing is requested, so no product intersects, and the station
  is kept all the same.
\<close>

theorem filter_stations_by_products_empty_request_counterexample:
  "filter_stations_by_products [mk_station ''s1'' ''Alpha'' (Some [''TRAM''])] (Some {})
     = [mk_station ''s1'' ''Alpha'' (Some [''TRAM''])]
   \<and> \<not> products_intersect {} (mk_station ''s1'' ''Alpha'' (Some [''TRAM'']))"
  by (simp add: filter_stations_by_products_def products_intersect_def mk_station_def)

text \<open>
  A station with no declared products is dropped by every request that is not bypassed.
\<close>

lemma filter_none_declared:
  "P \<noteq> {} \<Longrightarrow> ''ALL'' \<notin> P \<Longrightarrow>
   filter_stations_by_products [mk_station ''s4'' ''Delta'' None] (Some P) = []"
  by (simp add: filter_stations_by_products_def mk_station_def)

text \<open>
  C10. The bypass is decided before the requested names are upper-cased: every station
  list comes back unchanged exactly when the requested set is \<open>None\<close>, is empty, or holds
  the string \<^verbatim>\<open>"ALL"\<close> as it is written, so \<^verbatim>\<open>{"all"}\<close> filters. Below the bypass the
  names are compared in upper case: the stations kept are, in their order, exactly those
  that declare a product whose upper-cased name is the upper-cased name of a requested
  one, so two requests with the same upper-cased names keep the same stations.
\<close>

theorem filter_stations_by_products_bypass:
  "((\<forall>stations. filter_stations_by_products stations products = stations)
      \<longleftrightarrow> (products = None \<or> products = Some {} \<or> (\<exists>P. products = Some P \<and> ''ALL'' \<in> P)))
   \<and> (\<forall>P Q. P \<noteq> {} \<and> ''ALL'' \<notin> P \<and> Q \<noteq> {} \<and> ''ALL'' \<notin> Q \<and> upper ` P = upper ` Q
          \<longrightarrow> filter_stations_by_products stations (Some P)
                = filter_stations_by_products stations (Some Q))
   \<and> (\<forall>P. P \<noteq> {} \<and> ''ALL'' \<notin> P
          \<longrightarrow> filter_stations_by_products stations (Some P)
                = filter (products_intersect P) stations
            \<and> filter_stations_by_products stations (Some P)
                = filter (\<lambda>s. \<exists>ps p q. st_products s = Some ps \<and> p \<in> set ps \<and> q \<in> P
                                  \<and> upper p = upper q) stations)"
proof (intro conjI iffI allI impI)
  assume all: "\<forall>stations. filter_stations_by_products stations products = stations"
  show "products = None \<or> products = Some {} \<or> (\<exists>P. products = Some P \<and> ''ALL'' \<in> P)"
  proof (cases products)
    case None
    then show ?thesis by simp
  next
    case (Some P)
    show ?thesis
    proof (rule ccontr)
      assume "\<not> ?thesis"
      with Some have "P \<noteq> {}" and "''ALL'' \<notin> P" by auto
      then have "filter_stations_by_products [mk_station ''s4'' ''Delta'' None] (Some P) = []"
        by (rule filter_none_declared)
      with all Some show False by simp
    qed
  qed
next
  fix stations
  assume "products = None \<or> products = Some {} \<or> (\<exists>P. products = Some P \<and> ''ALL'' \<in> P)"
  then show "filter_stations_by_products stations products = stations"
    by (auto simp: filter_stations_by_products_def)
next
  fix P Q
  assume "P \<noteq> {} \<and> ''ALL'' \<notin> P \<and> Q \<noteq> {} \<and> ''ALL'' \<notin> Q \<and> upper ` P = upper ` Q"
  then show "filter_stations_by_products stations (Some P)
               = filter_stations_by_products stations (Some Q)"
    by (simp add: filter_stations_by_products_def)
next
  fix P :: "string set"
  assume a: "P \<noteq> {} \<and> ''ALL'' \<notin> P"
  then show e: "filter_stations_by_products stations (Some P)
               = filter (products_intersect P) stations"
    by (simp add: filter_stations_by_products_def filter_loop_filter)
  have "products_intersect P s
          \<longleftrightarrow> (\<exists>ps p q. st_products s = Some ps \<and> p \<in> set ps \<and> q \<in> P \<and> upper p = upper q)" for s
    by (cases "st_products s") (auto simp: products_intersect_def)
  then have "products_intersect P
          = (\<lambda>s. \<exists>ps p q. st_products s = Some ps \<and> p \<in> set ps \<and> q \<in> P \<and> upper p = upper q)"
    by (intro ext)
  with e show "filter_stations_by_products stations (Some P)
                = filter (\<lambda>s. \<exists>ps p q. st_products s = Some ps \<and> p \<in> set ps \<and> q \<in> P
                                  \<and> upper p = upper q) stations"
    by simp
qed

text \<open>
  A witness: \<^verbatim>\<open>{"all"}\<close> is not a bypass and keeps none of the test's stations; the
  empty set and \<open>None\<close> are; \<^verbatim>\<open>{"tram"}\<close> keeps the two stations that declare
  \<^verbatim>\<open>TRAM\<close>; \<^verbatim>\<open>{"tRAM"}\<close> keeps a station declaring \<^verbatim>\<open>Tram\<close> and drops one
  declaring \<^verbatim>\<open>bus\<close>.
\<close>

theorem filter_stations_by_products_bypass_witness:
  "\<not> (\<forall>stations. filter_stations_by_products stations (Some {''all''}) = stations)
   \<and> (\<forall>stations. filter_stations_by_products stations (Some {}) = stations)
   \<and> (\<forall>stations. filter_stations_by_products stations None = stations)
   \<and> filter_stations_by_products test_stations (Some {''tram''})
       = filter_stations_by_products test_stations (Some {''TRAM''})
   \<and> map st_id (filter_stations_by_products test_stations (Some {''tram''})) = [''s1'', ''s2'']
   \<and> map st_id (filter_stations_by_products test_stations (Some {''all''})) = []
   \<and> map st_id (filter_stations_by_products
        [mk_station ''s5'' ''Epsilon'' (Some [''Tram'']),
         mk_station ''s6'' ''Zeta'' (Some [''bus''])] (Some {''tRAM''})) = [''s5'']"
proof -
  have u: "upper ` {''tram''} = upper ` {''TRAM''}"
    by code_simp
  have n: "''ALL'' \<notin> {''all''}" "''ALL'' \<notin> {''tram''}" "''ALL'' \<notin> {''TRAM''}"
    "''ALL'' \<notin> {''tRAM''}"
    by simp_all
  have f: "map st_id (filter (products_intersect {''tram''}) test_stations) = [''s1'', ''s2'']"
    "map st_id (filter (products_intersect {''all''}) test_stations) = []"
    "map st_id (filter (products_intersect {''tRAM''})
        [mk_station ''s5'' ''Epsilon'' (Some [''Tram'']),
         mk_station ''s6'' ''Zeta'' (Some [''bus''])]) = [''s5'']"
    by code_simp+
  from filter_stations_by_products_bypass [of "Some {''all''}" test_stations]
    filter_stations_by_products_bypass [of "Some {}" test_stations]
    filter_stations_by_products_bypass [of "None" test_stations]
    filter_stations_by_products_bypass [of "None" "[mk_station ''s5'' ''Epsilon'' (Some [''Tram'']),
         mk_station ''s6'' ''Zeta'' (Some [''bus''])]"] u n f
  show ?thesis by auto
qed

section \<open>Deduplicated persistence\<close>

text \<open>
  One turn of the loop of \<^verbatim>\<open>insert_departures\<close>, on a session with nothing pending. A row
  that collides with no row of the table or of the open transaction joins the
  transaction. A row that collides is skipped, and the transaction is left empty: the
  rows flushed before it are dropped with it.
\<close>

lemma insert_loop_fresh:
  assumes "pending s = []" "\<not> violates_uq (db_rows s @ txn_rows s) d"
  shows "insert_loop s (d # ds) inserted skipped
           = insert_loop (s\<lparr>txn_rows := txn_rows s @ [d], pending := []\<rparr>) ds
               (inserted + 1) skipped"
  using assms
  by (simp add: session_add_def session_flush_def)

lemma insert_loop_conflict:
  assumes "pending s = []" "violates_uq (db_rows s @ txn_rows s) d"
  shows "insert_loop s (d # ds) inserted skipped
           = insert_loop (s\<lparr>txn_rows := [], pending := []\<rparr>) ds inserted (skipped + 1)"
  using assms
  by (simp add: session_add_def session_flush_def session_rollback_def)

text \<open>
  C1, on the code. The two departures of the repository's test
  \<^verbatim>\<open>test_insert_departures_dedup\<close> have the same natural key and differ in \<^verbatim>\<open>fetched_at\<close>.
  Inserted into an empty store in one session that is committed at the end, they are
  counted as one insert and one skip, as the specification says, but the store holds no
  row afterwards: the \<^verbatim>\<open>session.rollback()\<close> that answers the duplicate also undoes the
  insert of the first one, which was flushed and not committed.
\<close>

theorem insert_departures_duplicate_rolls_back_first_row:
  "insert_and_commit []
     [mk_departure ''s1'' ''TRAM'' ''T17'' ''Central'' 1700000000 1700000000,
      mk_departure ''s1'' ''TRAM'' ''T17'' ''Central'' 1700000000 1700000060]
   = Inr ([], 1, 1)"
  by code_simp

text \<open>
  C2, on the code. One pass over two stations, one session: the row of the first station
  and the first row of the second are flushed, the second row of the second station
  repeats the key of the row before it and is counted as a skip, a third row follows. After the
  commit the store holds the third row only: the rows flushed before the conflict are
  gone, although they are counted as inserted.
\<close>

theorem persist_results_conflict_discards_flushed_rows:
  "persist_results []
     [(''s1'', [mk_departure ''s1'' ''TRAM'' ''T17'' ''Central'' 1700000000 1700000000]),
      (''s2'', [mk_departure ''s2'' ''BUS'' ''53'' ''North'' 1700000120 1700000000,
               mk_departure ''s2'' ''BUS'' ''53'' ''North'' 1700000120 1700000060,
               mk_departure ''s2'' ''BUS'' ''54'' ''South'' 1700000180 1700000060])]
   = Inr ([mk_departure ''s2'' ''BUS'' ''54'' ''South'' 1700000180 1700000060], 2, 3, 1)"
  by code_simp

section \<open>The poller's backoff\<close>

lemma iteration_fail:
  assumes "\<not> pass_ok ev" "\<not> stop st" "\<not> stop_before_check ev"
  shows "sleeps (poller_iteration i st ev)
           = sleeps st @ [of_int (backoff st),
                          max 0 (of_int i - (pass_duration ev + of_int (backoff st)))]"
    and "backoff (poller_iteration i st ev) = min (backoff st * 2) 60"
    and "now (poller_iteration i st ev) = now st + pass_duration ev + of_int (backoff st) + max 0 (of_int i - (pass_duration ev + of_int (backoff st)))"
    and "stop (poller_iteration i st ev) = stop_during_sleep ev"
  using assms by (simp_all add: poller_iteration_def time_sleep_def Let_def algebra_simps)

lemma min_double_cap:
  fixes b :: int
  assumes "1 \<le> b"
  shows "min (min (b * 2) 60 * 2 ^ n) 60 = min (b * (2 * 2 ^ n)) 60"
proof (cases "b * 2 \<le> 60")
  case True
  then show ?thesis by (simp add: mult.assoc)
next
  case False
  have p: "(1::int) \<le> 2 ^ n" by simp
  from False have "60 < b * 2" by simp
  then have "60 * 1 \<le> (b * 2) * 2 ^ n"
    using p by (intro mult_mono) auto
  moreover have "(60::int) * 1 \<le> 60 * 2 ^ n"
    using p by (intro mult_mono) auto
  ultimately show ?thesis using False by (simp add: mult.assoc)
qed

lemma backoff_run:
  assumes "\<forall>ev \<in> set evs. \<not> pass_ok ev \<and> \<not> stop_before_check ev \<and> \<not> stop_during_sleep ev"
    and "\<not> stop st" and "1 \<le> backoff st" and "backoff st \<le> 60"
  shows "backoff (poller_loop i st evs) = min (backoff st * 2 ^ length evs) 60
         \<and> \<not> stop (poller_loop i st evs)"
  using assms
proof (induction evs arbitrary: st)
  case Nil
  then show ?case by simp
next
  case (Cons ev evs)
  let ?st = "poller_iteration i st ev"
  from Cons.prems have ev: "\<not> pass_ok ev" "\<not> stop st" "\<not> stop_before_check ev" "\<not> stop_during_sleep ev"
    by simp_all
  have b: "backoff ?st = min (backoff st * 2) 60" and s: "\<not> stop ?st"
    using iteration_fail(2,4) [OF ev(1-3)] ev(4) by simp_all
  have "backoff (poller_loop i ?st evs) = min (backoff ?st * 2 ^ length evs) 60
        \<and> \<not> stop (poller_loop i ?st evs)"
    using Cons.prems b s by (intro Cons.IH) auto
  then show ?case
    using ev(2) b min_double_cap [OF Cons.prems(3)] by simp
qed

text \<open>
  C3, as the code has it. In an iteration whose pass raises, with no stop signal, the poller
  sleeps the current backoff, doubles it up to the cap of 60, and then sleeps
  \<open>max 0 (interval - elapsed)\<close>, where \<open>elapsed\<close> is measured from the start of the
  iteration and so holds the backoff sleep as well as the pass: the iteration lasts
  \<open>max interval (duration + backoff)\<close>, and the backoff lengthens it only by what exceeds
  the interval. A pass that returns resets the backoff to 1, and after \<open>n\<close> failures in a
  row from the start the backoff is \<open>min (2 ^ n) 60\<close>.
\<close>

theorem poller_failure_backoff:
  "(\<not> pass_ok ev \<and> \<not> stop st \<and> \<not> stop_before_check ev \<longrightarrow>
      sleeps (poller_iteration i st ev)
        = sleeps st @ [of_int (backoff st),
                       max 0 (of_int i - (pass_duration ev + of_int (backoff st)))]
      \<and> backoff (poller_iteration i st ev) = min (backoff st * 2) 60
      \<and> now (poller_iteration i st ev)
          = now st + max (of_int i) (pass_duration ev + of_int (backoff st)))
   \<and> (pass_ok ev \<longrightarrow> backoff (poller_iteration i st ev) = 1)
   \<and> ((\<forall>ev \<in> set evs. \<not> pass_ok ev \<and> \<not> stop_before_check ev \<and> \<not> stop_during_sleep ev) \<longrightarrow>
        backoff (run_poller i start evs) = min (2 ^ length evs) 60)"
proof (intro conjI impI)
  assume a: "\<not> pass_ok ev \<and> \<not> stop st \<and> \<not> stop_before_check ev"
  then show "sleeps (poller_iteration i st ev)
        = sleeps st @ [of_int (backoff st),
                       max 0 (of_int i - (pass_duration ev + of_int (backoff st)))]"
    by (simp add: iteration_fail(1))
  from a show "backoff (poller_iteration i st ev) = min (backoff st * 2) 60"
    by (simp add: iteration_fail(2))
  from a have "now (poller_iteration i st ev)
      = now st + pass_duration ev + of_int (backoff st)
        + max 0 (of_int i - (pass_duration ev + of_int (backoff st)))"
    by (simp add: iteration_fail(3))
  then show "now (poller_iteration i st ev)
      = now st + max (of_int i) (pass_duration ev + of_int (backoff st))"
    by (simp add: max_def)
next
  assume "pass_ok ev"
  then show "backoff (poller_iteration i st ev) = 1"
    by (simp add: poller_iteration_def time_sleep_def Let_def)
next
  assume "\<forall>ev \<in> set evs. \<not> pass_ok ev \<and> \<not> stop_before_check ev \<and> \<not> stop_during_sleep ev"
  then show "backoff (run_poller i start evs) = min (2 ^ length evs) 60"
    using backoff_run [of evs "\<lparr>backoff = 1, now = start, sleeps = [], stop = False\<rparr>" i]
    by (simp add: run_poller_def)
qed

text \<open>
  A witness: a pass of 2 time-units fails at backoff 1 under an interval of 30; seven
  failures in a row reach the cap.
\<close>

theorem poller_failure_backoff_witness:
  "sleeps (poller_iteration 30 \<lparr>backoff = 1, now = 0, sleeps = [], stop = False\<rparr>
       \<lparr>pass_ok = False, pass_duration = 2, stop_before_check = False,
        stop_during_sleep = False\<rparr>) = [1, 27]
   \<and> backoff (run_poller 30 0
       (replicate 7 \<lparr>pass_ok = False, pass_duration = 2, stop_before_check = False,
                     stop_during_sleep = False\<rparr>)) = 60"
  using poller_failure_backoff
    [of "\<lparr>pass_ok = False, pass_duration = 2, stop_before_check = False,
          stop_during_sleep = False\<rparr>"
        "\<lparr>backoff = 1, now = 0, sleeps = [], stop = False\<rparr>" 30
        "replicate 7 \<lparr>pass_ok = False, pass_duration = 2, stop_before_check = False,
                       stop_during_sleep = False\<rparr>" 0]
  by simp

text \<open>
  C3 as the specification states it has the backoff added on top of the cadence: after
  the backoff sleep the normal sleep of the iteration would follow, 28 time-units for a
  pass of 2 under an interval of 30, and the failed iteration would last 31. The code
  sleeps 1 and then 27: the failed iteration ends at the same time as a successful one,
  the backoff is absorbed.
\<close>

theorem poller_backoff_absorbed_counterexample:
  "sleeps (poller_iteration 30 \<lparr>backoff = 1, now = 0, sleeps = [], stop = False\<rparr>
       \<lparr>pass_ok = False, pass_duration = 2, stop_before_check = False,
        stop_during_sleep = False\<rparr>) = [1, 27]
   \<and> sleeps (poller_iteration 30 \<lparr>backoff = 1, now = 0, sleeps = [], stop = False\<rparr>
       \<lparr>pass_ok = True, pass_duration = 2, stop_before_check = False,
        stop_during_sleep = False\<rparr>) = [28]
   \<and> now (poller_iteration 30 \<lparr>backoff = 1, now = 0, sleeps = [], stop = False\<rparr>
       \<lparr>pass_ok = False, pass_duration = 2, stop_before_check = False,
        stop_during_sleep = False\<rparr>) = 30
   \<and> now (poller_iteration 30 \<lparr>backoff = 1, now = 0, sleeps = [], stop = False\<rparr>
       \<lparr>pass_ok = True, pass_duration = 2, stop_before_check = False,
        stop_during_sleep = False\<rparr>) = 30"
  by (simp add: poller_iteration_def time_sleep_def Let_def)

section \<open>Rounding to a double\<close>

lemma bitlen_rat_bounds:
  assumes "0 < (a::int)"
  shows "(2::rat) powi (bitlen a - 1) \<le> of_int a" and "of_int a < (2::rat) powi (bitlen a)"
proof -
  from bitlen_bounds [OF assms]
  have lo: "2 ^ nat (bitlen a - 1) \<le> a" and hi: "a < 2 ^ nat (bitlen a)" by simp_all
  have ge: "1 \<le> bitlen a"
    using assms bitlen_eq_zero_iff [of a] bitlen_nonneg [of a] by linarith
  have "(of_int (2 ^ nat (bitlen a - 1)) :: rat) \<le> of_int a"
    using lo by (simp only: of_int_le_iff)
  then show "(2::rat) powi (bitlen a - 1) \<le> of_int a"
    using ge by (simp add: power_int_def)
  have "(of_int a :: rat) < of_int (2 ^ nat (bitlen a))"
    using hi by (simp only: of_int_less_iff)
  then show "of_int a < (2::rat) powi (bitlen a)"
    using ge by (simp add: power_int_def)
qed

lemma ilog2_bounds:
  assumes "0 < q"
  shows "2 powi (ilog2 q) \<le> q \<and> q < 2 powi (ilog2 q + 1)"
proof -
  obtain a b where ab: "quotient_of q = (a, b)" by (cases "quotient_of q")
  then have b: "0 < b" and q: "q = of_int a / of_int b"
    by (simp_all add: quotient_of_denom_pos quotient_of_div)
  from assms q b have a: "0 < a"
    by (simp add: zero_less_divide_iff)
  define k where "k = bitlen a - bitlen b"
  have bpos: "(0::rat) < of_int b" using b by simp
  have "q < 2 powi (bitlen a) / 2 powi (bitlen b - 1)"
  proof -
    have "q < 2 powi (bitlen a) / of_int b"
      unfolding q using bitlen_rat_bounds(2) [OF a] bpos by (simp add: divide_strict_right_mono)
    also have "\<dots> \<le> 2 powi (bitlen a) / 2 powi (bitlen b - 1)"
      using bitlen_rat_bounds(1) [OF b] by (intro divide_left_mono) (auto intro: mult_pos_pos bpos)
    finally show ?thesis .
  qed
  also have "2 powi (bitlen a) / 2 powi (bitlen b - 1) = (2::rat) powi (bitlen a - (bitlen b - 1))"
    by (rule power_int_diff [symmetric]) simp
  also have "bitlen a - (bitlen b - 1) = k + 1"
    by (simp add: k_def)
  finally have hi: "q < 2 powi (k + 1)" .
  have e: "k - 1 = bitlen a - 1 - bitlen b"
    by (simp add: k_def)
  have "(2::rat) powi (k - 1) = 2 powi (bitlen a - 1 - bitlen b)"
    by (simp only: e)
  also have "\<dots> = 2 powi (bitlen a - 1) / 2 powi (bitlen b)"
    by (rule power_int_diff) simp
  also have "\<dots> \<le> of_int a / 2 powi (bitlen b)"
    using bitlen_rat_bounds(1) [OF a] by (intro divide_right_mono) auto
  also have "\<dots> < of_int a / of_int b"
    using bitlen_rat_bounds(2) [OF b] a bpos by (intro divide_strict_left_mono) (auto intro: mult_pos_pos)
  finally have lo: "2 powi (k - 1) < q" using q by simp
  show ?thesis
  proof (cases "2 powi k \<le> q")
    case True
    then have "ilog2 q = k" by (simp add: ilog2_def ab k_def)
    with True hi show ?thesis by simp
  next
    case False
    then have "ilog2 q = k - 1" by (simp add: ilog2_def ab k_def)
    with False lo show ?thesis by simp
  qed
qed

lemma round_half_even_of_int [simp]: "round_half_even (of_int n) = n"
  by (simp add: round_half_even_def)

lemma round_half_even_bounds:
  "of_int (round_half_even x) \<le> x + 1 / 2" "x - 1 / 2 \<le> of_int (round_half_even x)"
  unfolding round_half_even_def Let_def by (auto; linarith)+

lemma rhe_floor2:
  assumes "2 * x \<noteq> of_int \<lfloor>2 * x\<rfloor>"
  shows "round_half_even x = (\<lfloor>2 * x\<rfloor> + 1) div 2"
proof -
  define f where "f = \<lfloor>x\<rfloor>"
  define r where "r = x - of_int f"
  have r: "0 \<le> r" "r < 1"
    unfolding r_def f_def by linarith+
  have x: "x = of_int f + r" by (simp add: r_def)
  have rhe: "round_half_even x =
      (if r < 1 / 2 then f else if 1 / 2 < r then f + 1 else if even f then f else f + 1)"
    by (simp add: round_half_even_def Let_def f_def r_def)
  show ?thesis
  proof (cases "r < 1 / 2")
    case True
    have "\<lfloor>2 * x\<rfloor> = 2 * f"
      by (rule floor_unique) (use r True x in auto)
    with True rhe show ?thesis by simp
  next
    case False
    have "r \<noteq> 1 / 2"
    proof
      assume "r = 1 / 2"
      then have "2 * x = of_int (2 * f + 1)" using x by simp
      then have "2 * x = of_int \<lfloor>2 * x\<rfloor>" by (metis floor_of_int)
      with assms show False by simp
    qed
    with False have gt: "1 / 2 < r" by simp
    have "\<lfloor>2 * x\<rfloor> = 2 * f + 1"
      by (rule floor_unique) (use r gt x in auto)
    with gt rhe show ?thesis by simp
  qed
qed

lemma pow2_lt_exp: "(2::rat) powi m < 2 powi n \<Longrightarrow> m < n"
  using power_int_increasing [of n m "2::rat"] by (cases "m < n") auto

lemma ilog2_lt:
  assumes "0 < q" "q < 2 powi k"
  shows "ilog2 q < k"
proof -
  have "2 powi (ilog2 q) < (2::rat) powi k"
    using ilog2_bounds [OF assms(1)] assms(2) by linarith
  then show ?thesis by (rule pow2_lt_exp)
qed

lemma ilog2_ge:
  assumes "0 < q" "2 powi k \<le> q"
  shows "k \<le> ilog2 q"
proof -
  have "(2::rat) powi k < 2 powi (ilog2 q + 1)"
    using ilog2_bounds [OF assms(1)] assms(2) by linarith
  then have "k < ilog2 q + 1" by (rule pow2_lt_exp)
  then show ?thesis by simp
qed

lemma round_half_even_nonneg: "0 \<le> x \<Longrightarrow> 0 \<le> round_half_even x"
proof -
  assume "0 \<le> x"
  then have "- 1 / 2 \<le> (of_int (round_half_even x) :: rat)"
    using round_half_even_bounds(2) [of x] by linarith
  then have "(of_int (- 1) :: rat) < of_int (round_half_even x)"
    by simp
  then have "- 1 < round_half_even x"
    by (simp only: of_int_less_iff)
  then show ?thesis by simp
qed

lemma round_to_double_some:
  assumes "q \<noteq> 0" "\<bar>q\<bar> < 2 ^ 1023"
  defines "e \<equiv> max (ilog2 \<bar>q\<bar> - 52) (- 1074)"
  defines "m \<equiv> round_half_even (\<bar>q\<bar> / 2 powi e)"
  shows "round_to_double q = Some (sgn q * (of_int m * 2 powi e))"
proof -
  let ?a = "\<bar>q\<bar>"
  let ?L = "ilog2 ?a"
  have a: "0 < ?a" using assms(1) by simp
  have "?a < 2 powi 1023" using assms(2) by simp
  then have L: "?L < 1023" by (rule ilog2_lt [OF a])
  then have e970: "e \<le> 970" by (simp add: e_def)
  have eL: "?L + 1 - e \<le> 53" by (simp add: e_def)
  have p: "(0::rat) < 2 powi e" by simp
  have "?a / 2 powi e < 2 powi (?L + 1) / 2 powi e"
    using ilog2_bounds [OF a] p by (simp add: divide_strict_right_mono)
  also have "\<dots> = 2 powi (?L + 1 - e)"
    by (rule power_int_diff [symmetric]) simp
  also have "\<dots> \<le> 2 powi 53"
    using eL by (intro power_int_increasing) auto
  finally have s: "?a / 2 powi e < 2 ^ 53" by simp
  have "(of_int m :: rat) \<le> ?a / 2 powi e + 1 / 2"
    unfolding m_def by (rule round_half_even_bounds)
  with s have "(of_int m :: rat) < of_int (2 ^ 53 + 1)" by simp
  then have "m < 2 ^ 53 + 1" by (simp only: of_int_less_iff)
  then have "m < 2 ^ nat 54" by simp
  then have "bitlen m \<le> 54" by (simp add: bitlen_le_iff_power)
  with e970 have "\<not> 1024 < bitlen m + e" by simp
  then show ?thesis
    using assms(1) by (simp add: round_to_double_def Let_def e_def m_def)
qed

lemma round_to_double_zero [simp]: "round_to_double 0 = Some 0"
  by (simp add: round_to_double_def)

lemma round_to_double_total:
  assumes "\<bar>q\<bar> < 2 ^ 1023"
  shows "\<exists>f. round_to_double q = Some f"
  using round_to_double_some [OF _ assms] by (cases "q = 0") auto

lemma round_to_double_error:
  assumes "q \<noteq> 0" "\<bar>q\<bar> < 2 ^ 1023" "round_to_double q = Some f"
  shows "\<bar>f - q\<bar> \<le> 2 powi (max (ilog2 \<bar>q\<bar> - 52) (- 1074)) / 2"
proof -
  define e where "e = max (ilog2 \<bar>q\<bar> - 52) (- 1074)"
  define m where "m = round_half_even (\<bar>q\<bar> / 2 powi e)"
  define s where "s = \<bar>q\<bar> / 2 powi e"
  have f: "f = sgn q * (of_int m * 2 powi e)"
    using round_to_double_some [OF assms(1,2)] assms(3) by (simp add: e_def m_def)
  have q: "q = sgn q * (s * 2 powi e)"
    by (simp add: s_def sgn_mult_abs)
  have "f - q = sgn q * ((of_int m - s) * 2 powi e)"
    by (subst q, subst f) (simp add: algebra_simps)
  then have "\<bar>f - q\<bar> = \<bar>of_int m - s\<bar> * 2 powi e"
    using assms(1) by (simp add: abs_mult abs_sgn_eq)
  moreover have "\<bar>of_int m - s\<bar> \<le> 1 / 2"
    unfolding m_def s_def using round_half_even_bounds [of "\<bar>q\<bar> / 2 powi e"] by linarith
  ultimately have "\<bar>f - q\<bar> \<le> 1 / 2 * 2 powi e"
    by (simp add: mult_right_mono)
  then show ?thesis by (simp add: e_def)
qed

lemma round_to_double_exact:
  assumes "q \<noteq> 0" "\<bar>q\<bar> < 2 ^ 1023"
    and "\<bar>q\<bar> / 2 powi (max (ilog2 \<bar>q\<bar> - 52) (- 1074)) = of_int n"
  shows "round_to_double q = Some q"
proof -
  define e where "e = max (ilog2 \<bar>q\<bar> - 52) (- 1074)"
  have aq: "\<bar>q\<bar> = of_int n * 2 powi e"
    using assms(3) by (simp add: e_def field_simps)
  have "sgn q * \<bar>q\<bar> = q"
    by (rule sgn_mult_abs)
  then have "sgn q * (of_int n * 2 powi e) = q"
    by (simp only: aq)
  then show ?thesis
    using round_to_double_some [OF assms(1,2)] assms(3) by (simp add: e_def)
qed

lemma round_to_double_bound:
  assumes "round_to_double q = Some f"
  shows "\<bar>f\<bar> < 2 ^ 1024"
proof (cases "q = 0")
  case True
  with assms show ?thesis by simp
next
  case False
  define e where "e = max (ilog2 \<bar>q\<bar> - 52) (- 1074)"
  define m where "m = round_half_even (\<bar>q\<bar> / 2 powi e)"
  from assms False have nov: "bitlen m + e \<le> 1024" and f: "f = sgn q * (of_int m * 2 powi e)"
    by (auto simp: round_to_double_def Let_def e_def m_def split: if_splits)
  have m0: "0 \<le> m"
    unfolding m_def by (rule round_half_even_nonneg) simp
  have af: "\<bar>f\<bar> = of_int m * 2 powi e"
    using False m0 by (simp add: f abs_mult abs_sgn_eq)
  show ?thesis
  proof (cases "m = 0")
    case True
    then show ?thesis by (simp add: af)
  next
    case False
    with m0 have mpos: "0 < m" by simp
    have "(of_int m :: rat) * 2 powi e < 2 powi (bitlen m) * 2 powi e"
      using bitlen_rat_bounds(2) [OF mpos] by (simp add: mult_strict_right_mono)
    also have "\<dots> = 2 powi (bitlen m + e)"
      by (rule power_int_add [symmetric]) simp
    also have "\<dots> \<le> 2 powi 1024"
      using nov by (intro power_int_increasing) auto
    finally show ?thesis by (simp add: af)
  qed
qed

lemma round_to_double_of_int:
  assumes "\<bar>v\<bar> \<le> 2 ^ 53"
  shows "round_to_double (of_int v) = Some (of_int v)"
proof (cases "v = 0")
  case True
  then show ?thesis by simp
next
  case False
  let ?q = "of_int v :: rat"
  let ?a = "\<bar>?q\<bar>"
  let ?L = "ilog2 ?a"
  define e where "e = max (?L - 52) (- 1074)"
  have av: "?a = of_int \<bar>v\<bar>" by simp
  have "1 \<le> \<bar>v\<bar>" using False by simp
  then have "(of_int 1 :: rat) \<le> of_int \<bar>v\<bar>" by (simp only: of_int_le_iff)
  then have a1: "1 \<le> ?a" by simp
  then have a0: "0 < ?a" by linarith
  have "(of_int \<bar>v\<bar> :: rat) \<le> of_int (2 ^ 53)"
    using assms by (simp only: of_int_le_iff)
  then have a53: "?a \<le> 2 ^ 53" unfolding av by simp
  have L0: "0 \<le> ?L" using a1 by (intro ilog2_ge [OF a0]) simp
  have "(2::rat) ^ 53 < 2 ^ 54" by (rule power_strict_increasing) simp_all
  with a53 have "?a < 2 ^ 54" by (rule le_less_trans)
  then have "?a < 2 powi 54" by simp
  then have L54: "?L < 54" by (rule ilog2_lt [OF a0])
  have "(2::rat) ^ 53 < 2 ^ 1023" by (rule power_strict_increasing) simp_all
  with a53 have small: "?a < 2 ^ 1023" by (rule le_less_trans)
  have q0: "?q \<noteq> 0" using False by simp
  have e: "e = ?L - 52" using L0 by (simp add: e_def)
  have "\<exists>n. ?a / 2 powi e = of_int n"
  proof (cases "e \<le> 0")
    case True
    have "(2::rat) powi e = inverse (2 powi (- e))"
      using power_int_minus [of "2::rat" "- e"] by simp
    also have "2 powi (- e) = (2::rat) ^ nat (- e)"
      using True by (simp add: power_int_nonneg_exp)
    finally have "?a / 2 powi e = ?a * 2 ^ nat (- e)"
      by (simp add: divide_inverse)
    also have "\<dots> = of_int (\<bar>v\<bar> * 2 ^ nat (- e))"
      unfolding av by (simp only: of_int_mult of_int_power of_int_numeral)
    finally have "?a / 2 powi e = of_int (\<bar>v\<bar> * 2 ^ nat (- e))" .
    then show ?thesis ..
  next
    case False
    with e L54 have L: "?L = 53" and e1: "e = 1" by simp_all
    have "2 powi 53 \<le> ?a" using ilog2_bounds [OF a0] L by simp
    then have "2 ^ 53 \<le> ?a" by (simp only: power_int_numeral)
    with a53 have a: "?a = 2 ^ 53" by (rule antisym)
    have "(2::rat) ^ 53 / 2 = 2 ^ 52" by simp
    then have "?a / 2 powi e = of_int (2 ^ 52)"
      unfolding a e1 by (simp only: power_int_1_right of_int_power of_int_numeral)
    then show ?thesis ..
  qed
  then obtain n where "?a / 2 powi e = of_int n" ..
  then show ?thesis
    using round_to_double_exact [OF q0 small] by (simp add: e_def)
qed

lemma pow2_neg: "e \<le> 0 \<Longrightarrow> (x::rat) / 2 powi e = x * 2 ^ nat (- e)"
proof -
  assume e: "e \<le> 0"
  have "(2::rat) powi e = inverse (2 powi (- e))"
    using power_int_minus [of "2::rat" "- e"] by simp
  also have "2 powi (- e) = (2::rat) ^ nat (- e)"
    using e by (simp add: power_int_nonneg_exp)
  finally show ?thesis by (simp add: divide_inverse)
qed

lemma div60_exponent:
  assumes "\<bar>d\<bar> \<le> 2 ^ 53" "d \<noteq> 0"
  defines "q \<equiv> (of_int d :: rat) / 60"
  shows "\<bar>q\<bar> < 2 ^ 1023" and "max (ilog2 \<bar>q\<bar> - 52) (- 1074) \<le> - 5" and "q \<noteq> 0"
proof -
  show q0: "q \<noteq> 0" using assms(2) by (simp add: q_def)
  have "(of_int \<bar>d\<bar> :: rat) \<le> of_int (2 ^ 53)"
    using assms(1) by (simp only: of_int_le_iff)
  then have "\<bar>q\<bar> \<le> 2 ^ 53 / 60" by (simp add: q_def)
  also have "\<dots> < (2::rat) ^ 48" by simp
  finally have a48: "\<bar>q\<bar> < 2 ^ 48" .
  have "(2::rat) ^ 48 < 2 ^ 1023" by (rule power_strict_increasing) simp_all
  with a48 show "\<bar>q\<bar> < 2 ^ 1023" by (rule less_trans)
  have "\<bar>q\<bar> < 2 powi 48" using a48 by simp
  then have "ilog2 \<bar>q\<bar> < 48" using q0 by (intro ilog2_lt) simp_all
  then show "max (ilog2 \<bar>q\<bar> - 52) (- 1074) \<le> - 5" by simp
qed

lemma py_round_truediv_60:
  assumes "\<bar>d\<bar> \<le> 2 ^ 53"
  shows "\<exists>f. round_to_double (of_int d / 60) = Some f
             \<and> round_half_even f = round_half_even (of_int d / 60)"
proof (cases "d = 0")
  case True
  then show ?thesis by simp
next
  case d0: False
  define q where "q = (of_int d :: rat) / 60"
  define e where "e = max (ilog2 \<bar>q\<bar> - 52) (- 1074)"
  note ex = div60_exponent [OF assms d0, folded q_def]
  have e5: "e \<le> - 5" using ex(2) by (simp add: e_def)
  show ?thesis
  proof (cases "(30::int) dvd d")
    case True
    then obtain k where k: "d = 30 * k" ..
    have qk: "\<bar>q\<bar> = of_int \<bar>k\<bar> / 2" by (simp add: q_def k abs_mult)
    have "nat (- e) = Suc (nat (- e) - 1)" using e5 by simp
    then have p: "(2::rat) ^ nat (- e) = 2 * 2 ^ (nat (- e) - 1)"
      by (metis power_Suc)
    have "\<bar>q\<bar> / 2 powi e = \<bar>q\<bar> * 2 ^ nat (- e)"
      using e5 by (intro pow2_neg) simp
    also have "\<dots> = of_int \<bar>k\<bar> / 2 * (2 * 2 ^ (nat (- e) - 1))"
      by (simp only: qk p)
    also have "\<dots> = of_int \<bar>k\<bar> * 2 ^ (nat (- e) - 1)"
      by simp
    also have "\<dots> = of_int (\<bar>k\<bar> * 2 ^ (nat (- e) - 1))"
      by (simp only: of_int_mult of_int_power of_int_numeral)
    finally have "\<bar>q\<bar> / 2 powi (max (ilog2 \<bar>q\<bar> - 52) (- 1074))
        = of_int (\<bar>k\<bar> * 2 ^ (nat (- e) - 1))"
      unfolding e_def .
    then have "round_to_double q = Some q"
      by (rule round_to_double_exact [OF ex(3) ex(1)])
    then show ?thesis unfolding q_def by blast
  next
    case False
    define n where "n = d div 30"
    define r where "r = d mod 30"
    have r: "1 \<le> r" "r \<le> 29"
      using False by (simp_all add: r_def) (presburger+)?
    have d: "d = 30 * n + r" by (simp add: n_def r_def)
    have q2: "2 * q = of_int n + of_int r / 30"
      by (simp add: q_def d field_simps)
    have "(of_int 1 :: rat) \<le> of_int r" "(of_int r :: rat) \<le> of_int 29"
      using r by (simp_all only: of_int_le_iff)
    then have rr: "(1::rat) \<le> of_int r" "(of_int r :: rat) \<le> 29" by simp_all
    obtain f where f: "round_to_double q = Some f"
      using round_to_double_total [OF ex(1)] by blast
    have "\<bar>f - q\<bar> \<le> 2 powi e / 2"
      using round_to_double_error [OF ex(3) ex(1) f] by (simp add: e_def)
    also have "\<dots> \<le> 2 powi (- 5) / 2"
      using e5 by (intro divide_right_mono power_int_increasing) auto
    also have "\<dots> = 1 / 64" by (simp add: power_int_minus)
    finally have err: "\<bar>f - q\<bar> \<le> 1 / 64" .
    have fq: "\<lfloor>2 * q\<rfloor> = n"
      by (rule floor_unique) (use q2 rr in \<open>simp_all add: field_simps\<close>)
    have nq: "2 * q \<noteq> of_int \<lfloor>2 * q\<rfloor>"
      unfolding fq using q2 rr by simp
    have lo: "of_int n < 2 * f" and hi: "2 * f < of_int n + 1"
      using q2 rr err by linarith+
    have ff: "\<lfloor>2 * f\<rfloor> = n"
      by (rule floor_unique) (use lo hi in simp_all)
    have nf: "2 * f \<noteq> of_int \<lfloor>2 * f\<rfloor>"
      unfolding ff using lo by simp
    have "round_half_even f = round_half_even q"
      using rhe_floor2 [OF nf] rhe_floor2 [OF nq] by (simp add: ff fq)
    with f show ?thesis by (simp add: q_def)
  qed
qed

section \<open>Timestamp normalisation\<close>

lemma trunc_of_int [simp]: "trunc (of_int v) = v"
  by (simp add: trunc_def)

lemma normalize_epoch_seconds_int:
  "\<bar>v\<bar> \<le> 2 ^ 53 \<Longrightarrow>
   normalize_epoch_seconds (JInt v) = Some (if 10000000000 < v then v div 1000 else v)"
  by (simp add: normalize_epoch_seconds_def round_to_double_of_int)

text \<open>
  C5, as the code has it. An integer of magnitude at most \<open>2 ^ 53\<close> is a double, so
  \<^verbatim>\<open>int(float(value))\<close> gives it back: above the threshold \<open>10 ^ 10\<close> it is divided by
  1000 (the floor division of the code), up to the threshold it is unchanged. A value
  that is a double with a fraction is truncated towards zero first. An absent value stays
  absent.
\<close>

theorem normalize_epoch_seconds_exact_range:
  "(\<bar>v\<bar> \<le> 2 ^ 53 \<longrightarrow>
      normalize_epoch_seconds (JInt v) = Some (if 10000000000 < v then v div 1000 else v))
   \<and> (round_to_double x = Some x \<longrightarrow>
      normalize_epoch_seconds (JFloat x)
        = Some (if 10000000000 < trunc x then trunc x div 1000 else trunc x))
   \<and> normalize_epoch_seconds JNull = None"
proof (intro conjI impI)
  assume "\<bar>v\<bar> \<le> 2 ^ 53"
  then show "normalize_epoch_seconds (JInt v) = Some (if 10000000000 < v then v div 1000 else v)"
    by (rule normalize_epoch_seconds_int)
next
  assume "round_to_double x = Some x"
  then show "normalize_epoch_seconds (JFloat x)
      = Some (if 10000000000 < trunc x then trunc x div 1000 else trunc x)"
    by (simp add: normalize_epoch_seconds_def)
next
  show "normalize_epoch_seconds JNull = None"
    by (simp add: normalize_epoch_seconds_def)
qed

text \<open>The three values of the specification, and the double \<open>1700000000000.5\<close>.\<close>

theorem normalize_epoch_seconds_exact_range_witness:
  "normalize_epoch_seconds (JInt 1700000000000) = Some 1700000000
   \<and> normalize_epoch_seconds (JInt 1700000000) = Some 1700000000
   \<and> normalize_epoch_seconds (JFloat (3400000000001 / 2)) = Some 1700000000
   \<and> normalize_epoch_seconds JNull = None"
proof -
  have d: "round_to_double (3400000000001 / 2) = Some (3400000000001 / 2)"
    by code_simp
  have t: "trunc (3400000000001 / 2) = 1700000000000"
    by code_simp
  from normalize_epoch_seconds_exact_range [of 1700000000000 "3400000000001 / 2"]
    normalize_epoch_seconds_exact_range [of 1700000000 0] d t
  show ?thesis by simp
qed

text \<open>
  C5 as the specification states it, for every numeric value, fails beyond \<open>2 ^ 53\<close>:
  \<^verbatim>\<open>float(9999999999999999999)\<close> is \<open>10 ^ 19\<close>, so the result is \<open>10 ^ 16\<close>, which is not
  the value divided by 1000.
\<close>

theorem normalize_epoch_seconds_large_int_counterexample:
  "normalize_epoch_seconds (JInt 9999999999999999999) = Some 10000000000000000
   \<and> (9999999999999999999 :: int) div 1000 = 9999999999999999"
  by code_simp

section \<open>Delay derivation\<close>

lemma abs_trunc_le: "\<bar>of_int (trunc x) :: rat\<bar> \<le> \<bar>x\<bar>"
proof (cases "0 \<le> x")
  case True
  then have "0 \<le> \<lfloor>x\<rfloor>" by simp
  then have "\<bar>of_int \<lfloor>x\<rfloor> :: rat\<bar> = of_int \<lfloor>x\<rfloor>" by simp
  also have "\<dots> \<le> x" by (rule of_int_floor_le)
  finally show ?thesis using True by (simp add: trunc_def)
next
  case False
  then have "\<lceil>x\<rceil> \<le> 0" by (simp add: ceiling_le_iff)
  then have "\<bar>of_int \<lceil>x\<rceil> :: rat\<bar> = - of_int \<lceil>x\<rceil>" by simp
  also have "\<dots> \<le> - x" using le_of_int_ceiling [of x] by simp
  finally show ?thesis using False by (simp add: trunc_def)
qed

lemma trunc_bound:
  assumes "\<bar>f\<bar> < 2 ^ 1024"
  shows "\<bar>trunc f\<bar> < 2 ^ 1024"
proof -
  have "(of_int \<bar>trunc f\<bar> :: rat) = \<bar>of_int (trunc f)\<bar>" by simp
  also have "\<dots> \<le> \<bar>f\<bar>" by (rule abs_trunc_le)
  also have "\<dots> < of_int (2 ^ 1024)" using assms by simp
  finally show ?thesis by (simp only: of_int_less_iff)
qed

lemma int_of_float_of_bound:
  assumes "int_of_float_of v = Some i"
  shows "\<bar>i\<bar> < 2 ^ 1024"
proof (cases v)
  case (JInt n)
  with assms obtain f where "round_to_double (of_int n) = Some f" "i = trunc f"
    by auto
  then show ?thesis using round_to_double_bound trunc_bound by blast
next
  case (JFloat x)
  with assms obtain f where "round_to_double x = Some f" "i = trunc f"
    by auto
  then show ?thesis using round_to_double_bound trunc_bound by blast
qed (use assms in simp_all)

lemma normalize_epoch_seconds_bound:
  assumes "normalize_epoch_seconds v = Some p"
  shows "\<bar>p\<bar> < 2 ^ 1024"
proof -
  from assms obtain i where i: "int_of_float_of v = Some i"
    and p: "p = (if 10000000000 < i then i div 1000 else i)"
    by (auto simp: normalize_epoch_seconds_def split: if_splits option.splits)
  have "\<bar>p\<bar> \<le> \<bar>i\<bar>"
    unfolding p by (cases "10000000000 < i") (simp_all, linarith?)
  with int_of_float_of_bound [OF i] show ?thesis by linarith
qed

lemma py_truediv_60_total:
  assumes "\<bar>p\<bar> < 2 ^ 1024" "\<bar>r\<bar> < 2 ^ 1024"
  shows "\<exists>f. py_truediv (r - p) 60 = Inr f"
proof -
  have "\<bar>r - p\<bar> < 2 ^ 1024 + 2 ^ 1024" using assms by linarith
  also have "\<dots> = (2::int) ^ 1025" by simp
  finally have "(of_int \<bar>r - p\<bar> :: rat) < of_int (2 ^ 1025)"
    by (simp only: of_int_less_iff)
  then have "\<bar>(of_int (r - p) :: rat) / 60\<bar> < 2 ^ 1025 / 60"
    by (simp add: divide_strict_right_mono)
  also have "(2::rat) ^ 1025 / 60 \<le> 2 ^ 1023"
  proof -
    have "(2::rat) ^ 1025 = 4 * 2 ^ 1023" by (simp add: power_add [of _ 2 1023, simplified])
    then show ?thesis by simp
  qed
  finally obtain f where "round_to_double (of_int (r - p) / 60) = Some f"
    using round_to_double_total by blast
  then show ?thesis by (simp add: py_truediv_def)
qed

lemma round_half_even_numeral [simp]: "round_half_even (numeral n) = numeral n"
  using round_half_even_of_int [of "numeral n"] by simp

lemma derive_delay_total:
  assumes "planned_t = normalize_epoch_seconds a" "realtime_t = normalize_epoch_seconds b"
  shows "\<exists>dl. derive_delay delay planned_t realtime_t = Inr dl"
proof (cases "\<exists>p r. delay = None \<and> planned_t = Some p \<and> realtime_t = Some r")
  case True
  then obtain p r where pr: "delay = None" "planned_t = Some p" "realtime_t = Some r" by blast
  with assms have "\<bar>p\<bar> < 2 ^ 1024" "\<bar>r\<bar> < 2 ^ 1024"
    using normalize_epoch_seconds_bound by metis+
  then obtain f where "py_truediv (r - p) 60 = Inr f"
    using py_truediv_60_total by blast
  with pr show ?thesis by (simp add: derive_delay_def)
next
  case False
  then show ?thesis
    by (auto simp: derive_delay_def split: option.splits)
qed

lemma departure_of_item_total: "\<exists>dep. departure_of_item sid t it = Inr dep"
proof -
  obtain dl where "derive_delay (py_or_int (j_delay_in_minutes it) (j_delayInMinutes it))
      (normalize_epoch_seconds (py_or (j_planned_departure_time it) (j_plannedDepartureTime it)))
      (normalize_epoch_seconds (py_or (j_realtime_departure_time it) (j_realtimeDepartureTime it)))
      = Inr dl"
    using derive_delay_total [OF refl refl] by blast
  then show ?thesis by (simp add: departure_of_item_def Let_def)
qed

lemma departure_of_item_delay:
  assumes "departure_of_item sid t it = Inr dep"
  shows "derive_delay (py_or_int (j_delay_in_minutes it) (j_delayInMinutes it))
           (planned_departure_time dep) (realtime_departure_time dep)
         = Inr (delay_in_minutes dep)"
  using assms by (auto simp: departure_of_item_def Let_def split: sum.splits)

lemma fetch_loop_total:
  "\<exists>deps. fetch_loop sid t data acc = Inr (acc @ deps) \<and> length deps = length data
      \<and> (\<forall>i<length data. departure_of_item sid t (data ! i) = Inr (deps ! i))"
proof (induction data arbitrary: acc)
  case Nil
  then show ?case by simp
next
  case (Cons it data)
  obtain dep where dep: "departure_of_item sid t it = Inr dep"
    using departure_of_item_total by blast
  from Cons.IH [of "acc @ [dep]"] obtain deps where
    deps: "fetch_loop sid t data (acc @ [dep]) = Inr ((acc @ [dep]) @ deps)"
      "length deps = length data"
      "\<forall>i<length data. departure_of_item sid t (data ! i) = Inr (deps ! i)"
    by blast
  have "\<forall>i<length (it # data). departure_of_item sid t ((it # data) ! i) = Inr ((dep # deps) ! i)"
    using dep deps(3) by (auto simp: nth_Cons split: nat.splits)
  with dep deps(1,2) show ?case
    by (intro exI [of _ "dep # deps"]) simp
qed

lemma derive_delay_derived:
  assumes "derive_delay None (planned_departure_time dep) (realtime_departure_time dep)
             = Inr (delay_in_minutes dep)"
  shows "delay_derived dep"
proof (cases "\<exists>p r. planned_departure_time dep = Some p \<and> realtime_departure_time dep = Some r")
  case True
  then obtain p r where pr: "planned_departure_time dep = Some p" "realtime_departure_time dep = Some r"
    by blast
  with assms obtain f where f: "py_truediv (r - p) 60 = Inr f"
    and d: "delay_in_minutes dep = Some (py_round f)"
    by (auto simp: derive_delay_def split: sum.splits)
  have rng: "delay_in_minutes dep = Some (round_half_even (of_int (r - p) / 60))"
    if "\<bar>r - p\<bar> \<le> 2 ^ 53"
    using py_round_truediv_60 [OF that] f d
    by (auto simp: py_truediv_def py_round_def split: option.splits)
  have "delay_in_minutes dep = Some 5" if "r = p + 300"
  proof -
    have "\<bar>r - p\<bar> \<le> 2 ^ 53" using that by simp
    moreover have "round_half_even 5 = 5"
      using round_half_even_of_int [of 5] by simp
    ultimately show ?thesis using rng that by simp
  qed
  with f d rng pr show ?thesis by (simp add: delay_derived_def)
next
  case False
  with assms show ?thesis
    by (auto simp: delay_derived_def derive_delay_def split: option.splits)
qed

text \<open>
  C6. \<^verbatim>\<open>fetch_departures\<close> returns one departure for each record of the response, built
  by the body of its loop, and for a record with no delay under either key the delay is
  derived as the specification says (\<open>delay_derived\<close>): the rounded quotient when both
  timestamps are present, 5 for a difference of 300 seconds, absent otherwise.
\<close>

theorem fetch_departures_derives_delay:
  "\<exists>deps. fetch_departures sid t data = Inr deps \<and> length deps = length data
     \<and> (\<forall>i<length data.
           departure_of_item sid t (data ! i) = Inr (deps ! i)
           \<and> (j_delay_in_minutes (data ! i) = None \<and> j_delayInMinutes (data ! i) = None
                \<longrightarrow> delay_derived (deps ! i)))"
proof -
  obtain deps where deps: "fetch_loop sid t data [] = Inr ([] @ deps)" "length deps = length data"
    and it: "\<forall>i<length data. departure_of_item sid t (data ! i) = Inr (deps ! i)"
    using fetch_loop_total [of sid t data "[]"] by blast
  have "delay_derived (deps ! i)"
    if "i < length data" "j_delay_in_minutes (data ! i) = None" "j_delayInMinutes (data ! i) = None" for i
  proof -
    from it that(1) have "departure_of_item sid t (data ! i) = Inr (deps ! i)" by simp
    from departure_of_item_delay [OF this] that(2,3) show ?thesis
      by (intro derive_delay_derived) (simp add: py_or_int_def)
  qed
  with deps it show ?thesis by (auto simp: fetch_departures_def)
qed

lemma departure_of_item_times:
  assumes "departure_of_item sid t it = Inr dep"
  shows "planned_departure_time dep
           = normalize_epoch_seconds (py_or (j_planned_departure_time it) (j_plannedDepartureTime it))"
    and "realtime_departure_time dep
           = normalize_epoch_seconds (py_or (j_realtime_departure_time it) (j_realtimeDepartureTime it))"
  using assms by (auto simp: departure_of_item_def Let_def split: sum.splits)

text \<open>The record of the repository's test: planned \<open>T\<close>, realtime \<open>T + 300\<close>, no delay.\<close>

theorem fetch_departures_derives_delay_witness:
  "\<exists>deps. fetch_departures ''de:fake:1'' 1700000000
             [mk_item (JInt 1700000000) (JInt 1700000300) None None] = Inr deps
     \<and> map delay_in_minutes deps = [Some 5]"
proof -
  let ?it = "mk_item (JInt 1700000000) (JInt 1700000300) None None"
  from fetch_departures_derives_delay [of "''de:fake:1''" 1700000000 "[?it]"]
  obtain deps where f: "fetch_departures ''de:fake:1'' 1700000000 [?it] = Inr deps"
    and l: "length deps = 1"
    and d: "departure_of_item ''de:fake:1'' 1700000000 ?it = Inr (deps ! 0)"
    and dd: "delay_derived (deps ! 0)"
    by (auto simp: mk_item_def)
  have "planned_departure_time (deps ! 0) = Some 1700000000"
    and "realtime_departure_time (deps ! 0) = Some 1700000300"
    using departure_of_item_times [OF d]
    by (simp_all add: mk_item_def py_or_def normalize_epoch_seconds_int)
  with dd have "delay_in_minutes (deps ! 0) = Some 5"
    by (simp add: delay_derived_def)
  moreover from l have "deps = [deps ! 0]"
    by (cases deps) simp_all
  ultimately have "map delay_in_minutes deps = [Some 5]"
    by (metis list.simps(8,9))
  with f show ?thesis by (intro exI [of _ deps] conjI)
qed

text \<open>
  C9, as the code has it. In \<^verbatim>\<open>item.get("delay_in_minutes") or item.get("delayInMinutes")\<close>
  a 0 under the first key is falsy and the second operand is taken: with no value under
  the second key the record is treated exactly as one with no delay at all, so the stored
  delay is the derived one, \<^verbatim>\<open>round((realtime - planned) / 60)\<close> of the record's two
  normalised timestamps when both are present and absent otherwise. A 0 under the second
  key is the value of the chain, falsy or not, and is stored as it is, whatever the
  timestamps are. Both hold of the record built by the loop body and of the list
  \<^verbatim>\<open>fetch_departures\<close> returns for a response holding that record.
\<close>

theorem fetch_departures_explicit_zero_delay:
  "(j_delay_in_minutes it = Some 0 \<and> j_delayInMinutes it = None \<longrightarrow>
      departure_of_item sid t it = departure_of_item sid t (it\<lparr>j_delay_in_minutes := None\<rparr>)
      \<and> (\<exists>dep. departure_of_item sid t it = Inr dep
             \<and> fetch_departures sid t [it] = Inr [dep]
             \<and> planned_departure_time dep
                 = normalize_epoch_seconds
                     (py_or (j_planned_departure_time it) (j_plannedDepartureTime it))
             \<and> realtime_departure_time dep
                 = normalize_epoch_seconds
                     (py_or (j_realtime_departure_time it) (j_realtimeDepartureTime it))
             \<and> delay_derived dep))
   \<and> (j_delayInMinutes it = Some 0
        \<and> (j_delay_in_minutes it = None \<or> j_delay_in_minutes it = Some 0) \<longrightarrow>
      (\<exists>dep. departure_of_item sid t it = Inr dep
             \<and> fetch_departures sid t [it] = Inr [dep]
             \<and> planned_departure_time dep
                 = normalize_epoch_seconds
                     (py_or (j_planned_departure_time it) (j_plannedDepartureTime it))
             \<and> realtime_departure_time dep
                 = normalize_epoch_seconds
                     (py_or (j_realtime_departure_time it) (j_realtimeDepartureTime it))
             \<and> delay_in_minutes dep = Some 0))"
proof (intro conjI impI)
  assume a: "j_delay_in_minutes it = Some 0 \<and> j_delayInMinutes it = None"
  then show "departure_of_item sid t it = departure_of_item sid t (it\<lparr>j_delay_in_minutes := None\<rparr>)"
    by (simp add: departure_of_item_def py_or_int_def Let_def cong: sum.case_cong)
  obtain dep where dep: "departure_of_item sid t it = Inr dep"
    using departure_of_item_total by blast
  from a have "py_or_int (j_delay_in_minutes it) (j_delayInMinutes it) = None"
    by (simp add: py_or_int_def)
  with departure_of_item_delay [OF dep] have "delay_derived dep"
    by (intro derive_delay_derived) simp
  with dep departure_of_item_times [OF dep]
  show "\<exists>dep. departure_of_item sid t it = Inr dep
             \<and> fetch_departures sid t [it] = Inr [dep]
             \<and> planned_departure_time dep
                 = normalize_epoch_seconds
                     (py_or (j_planned_departure_time it) (j_plannedDepartureTime it))
             \<and> realtime_departure_time dep
                 = normalize_epoch_seconds
                     (py_or (j_realtime_departure_time it) (j_realtimeDepartureTime it))
             \<and> delay_derived dep"
    by (intro exI [of _ dep]) (simp add: fetch_departures_def)
next
  assume "j_delayInMinutes it = Some 0
        \<and> (j_delay_in_minutes it = None \<or> j_delay_in_minutes it = Some 0)"
  then have z: "py_or_int (j_delay_in_minutes it) (j_delayInMinutes it) = Some 0"
    by (auto simp: py_or_int_def)
  obtain dep where dep: "departure_of_item sid t it = Inr dep"
    using departure_of_item_total by blast
  from departure_of_item_delay [OF dep] z have "delay_in_minutes dep = Some 0"
    by (simp add: derive_delay_def)
  with dep departure_of_item_times [OF dep]
  show "\<exists>dep. departure_of_item sid t it = Inr dep
             \<and> fetch_departures sid t [it] = Inr [dep]
             \<and> planned_departure_time dep
                 = normalize_epoch_seconds
                     (py_or (j_planned_departure_time it) (j_plannedDepartureTime it))
             \<and> realtime_departure_time dep
                 = normalize_epoch_seconds
                     (py_or (j_realtime_departure_time it) (j_realtimeDepartureTime it))
             \<and> delay_in_minutes dep = Some 0"
    by (intro exI [of _ dep]) (simp add: fetch_departures_def)
qed

text \<open>
  A witness: the test's record with a 0 under the first key only is stored with the delay
  5 derived from its timestamps, 300 seconds apart; the same record without its realtime
  timestamp is stored with no delay; with a 0 under the second key only it is stored with
  the delay 0.
\<close>

theorem fetch_departures_explicit_zero_delay_witness:
  "(\<exists>dep. departure_of_item ''de:fake:1'' 1700000000
            (mk_item (JInt 1700000000) (JInt 1700000300) (Some 0) None) = Inr dep
          \<and> fetch_departures ''de:fake:1'' 1700000000
            [mk_item (JInt 1700000000) (JInt 1700000300) (Some 0) None] = Inr [dep]
          \<and> delay_in_minutes dep = Some 5)
   \<and> (\<exists>dep. departure_of_item ''de:fake:1'' 1700000000
            (mk_item (JInt 1700000000) JNull (Some 0) None) = Inr dep
          \<and> fetch_departures ''de:fake:1'' 1700000000
            [mk_item (JInt 1700000000) JNull (Some 0) None] = Inr [dep]
          \<and> delay_in_minutes dep = None)
   \<and> (\<exists>dep. departure_of_item ''de:fake:1'' 1700000000
            (mk_item (JInt 1700000000) (JInt 1700000300) None (Some 0)) = Inr dep
          \<and> fetch_departures ''de:fake:1'' 1700000000
            [mk_item (JInt 1700000000) (JInt 1700000300) None (Some 0)] = Inr [dep]
          \<and> delay_in_minutes dep = Some 0)"
proof -
  let ?a = "mk_item (JInt 1700000000) (JInt 1700000300) (Some 0) None"
  let ?b = "mk_item (JInt 1700000000) JNull (Some 0) None"
  let ?c = "mk_item (JInt 1700000000) (JInt 1700000300) None (Some 0)"
  have n: "normalize_epoch_seconds (JInt 1700000000) = Some 1700000000"
    "normalize_epoch_seconds (JInt 1700000300) = Some 1700000300"
    by (simp_all add: normalize_epoch_seconds_int)
  have z: "normalize_epoch_seconds JNull = None"
    by (simp add: normalize_epoch_seconds_def)
  have ha: "j_delay_in_minutes ?a = Some 0 \<and> j_delayInMinutes ?a = None"
    and hb: "j_delay_in_minutes ?b = Some 0 \<and> j_delayInMinutes ?b = None"
    and hc: "j_delayInMinutes ?c = Some 0
        \<and> (j_delay_in_minutes ?c = None \<or> j_delay_in_minutes ?c = Some 0)"
    by (simp_all add: mk_item_def)
  have pa: "normalize_epoch_seconds
        (py_or (j_planned_departure_time ?a) (j_plannedDepartureTime ?a)) = Some 1700000000"
    and ra: "normalize_epoch_seconds
        (py_or (j_realtime_departure_time ?a) (j_realtimeDepartureTime ?a)) = Some 1700000300"
    and rb: "normalize_epoch_seconds
        (py_or (j_realtime_departure_time ?b) (j_realtimeDepartureTime ?b)) = None"
    by (simp_all add: mk_item_def py_or_def n z)
  have e1: "\<exists>dep. departure_of_item ''de:fake:1'' 1700000000 ?a = Inr dep
        \<and> fetch_departures ''de:fake:1'' 1700000000 [?a] = Inr [dep]
        \<and> planned_departure_time dep = Some 1700000000
        \<and> realtime_departure_time dep = Some 1700000300
        \<and> delay_derived dep"
    using fetch_departures_explicit_zero_delay
        [of ?a "''de:fake:1''" 1700000000, THEN conjunct1, THEN mp, OF ha, THEN conjunct2]
    by (simp only: pa ra)
  then obtain d1 where d1: "departure_of_item ''de:fake:1'' 1700000000 ?a = Inr d1"
    and f1: "fetch_departures ''de:fake:1'' 1700000000 [?a] = Inr [d1]"
    and "planned_departure_time d1 = Some 1700000000"
    and "realtime_departure_time d1 = Some 1700000300"
    and "delay_derived d1"
    by (elim exE conjE)
  then have v1: "delay_in_minutes d1 = Some 5"
    by (simp add: delay_derived_def)
  have e2: "\<exists>dep. departure_of_item ''de:fake:1'' 1700000000 ?b = Inr dep
        \<and> fetch_departures ''de:fake:1'' 1700000000 [?b] = Inr [dep]
        \<and> planned_departure_time dep = normalize_epoch_seconds
            (py_or (j_planned_departure_time ?b) (j_plannedDepartureTime ?b))
        \<and> realtime_departure_time dep = None
        \<and> delay_derived dep"
    using fetch_departures_explicit_zero_delay
        [of ?b "''de:fake:1''" 1700000000, THEN conjunct1, THEN mp, OF hb, THEN conjunct2]
    by (simp only: rb)
  then obtain d2 where d2: "departure_of_item ''de:fake:1'' 1700000000 ?b = Inr d2"
    and f2: "fetch_departures ''de:fake:1'' 1700000000 [?b] = Inr [d2]"
    and "realtime_departure_time d2 = None"
    and "delay_derived d2"
    by (elim exE conjE)
  then have v2: "delay_in_minutes d2 = None"
    by (simp add: delay_derived_def split: option.splits)
  from fetch_departures_explicit_zero_delay
      [of ?c "''de:fake:1''" 1700000000, THEN conjunct2, THEN mp, OF hc]
  obtain d3 where d3: "departure_of_item ''de:fake:1'' 1700000000 ?c = Inr d3"
    and f3: "fetch_departures ''de:fake:1'' 1700000000 [?c] = Inr [d3]"
    and v3: "delay_in_minutes d3 = Some 0"
    by (elim exE conjE)
  from d1 f1 v1 d2 f2 v2 d3 f3 v3 show ?thesis
    by (intro conjI exI [of _ d1] exI [of _ d2] exI [of _ d3])
qed

text \<open>
  C9 as stated fails twice. A 0 under \<^verbatim>\<open>delayInMinutes\<close> is stored as 0 although both
  timestamps are present, 300 seconds apart: nothing is re-derived. A 0 under
  \<^verbatim>\<open>delay_in_minutes\<close> does not survive a missing timestamp: the stored delay is absent.
\<close>

theorem fetch_departures_explicit_zero_delay_counterexample:
  "map_sum id delay_in_minutes
     (departure_of_item ''de:fake:1'' 1700000000
        (mk_item (JInt 1700000000) (JInt 1700000300) None (Some 0))) = Inr (Some 0)
   \<and> map_sum id delay_in_minutes
     (departure_of_item ''de:fake:1'' 1700000000
        (mk_item (JInt 1700000000) JNull (Some 0) None)) = Inr None"
proof -
  have n: "normalize_epoch_seconds (JInt 1700000000) = Some 1700000000"
    "normalize_epoch_seconds (JInt 1700000300) = Some 1700000300"
    by (simp_all add: normalize_epoch_seconds_int)
  have z: "normalize_epoch_seconds JNull = None"
    by (simp add: normalize_epoch_seconds_def)
  show ?thesis
    by (simp add: departure_of_item_def mk_item_def py_or_def py_or_int_def derive_delay_def
        n z Let_def)
qed

section \<open>The reference index: unmapped route types\<close>

lemma find_filter:
  "(\<And>x. P x \<Longrightarrow> Q x) \<Longrightarrow> find P (filter Q xs) = find P xs"
  by (induction xs) auto

lemma route_step_other:
  assumes "r_route_id r \<noteq> Some rid"
  shows "fst (route_step P L r (ids - {rid}, rp)) = fst (route_step P L r (ids, rp)) - {rid}"
    and "snd (route_step P L r (ids - {rid}, rp)) = snd (route_step P L r (ids, rp))"
  using assms by (auto simp: route_step_def Let_def split: option.splits)

lemma route_step_unmapped:
  assumes "r_route_id r = Some rid" "route_type_of r = None"
  shows "fst (route_step P L r (ids, rp)) - {rid} = ids - {rid}"
    and "snd (route_step P L r (ids, rp)) = rp"
  using assms by (auto simp: route_step_def Let_def split: option.splits)

lemma fold_route_step_without:
  assumes "unmapped_route routes rid"
  shows "fst (fold (route_step P L) (without_route rid routes) (ids - {rid}, rp))
           = fst (fold (route_step P L) routes (ids, rp)) - {rid}
         \<and> snd (fold (route_step P L) (without_route rid routes) (ids - {rid}, rp))
           = snd (fold (route_step P L) routes (ids, rp))"
  using assms
proof (induction routes arbitrary: ids rp)
  case Nil
  then show ?case by (simp add: without_route_def)
next
  case (Cons r routes)
  from Cons.prems have um: "unmapped_route routes rid"
    by (simp add: unmapped_route_def)
  obtain ids1 rp1 where s: "route_step P L r (ids, rp) = (ids1, rp1)"
    by (cases "route_step P L r (ids, rp)")
  show ?case
  proof (cases "r_route_id r = Some rid")
    case True
    with Cons.prems have "route_type_of r = None"
      by (simp add: unmapped_route_def)
    from route_step_unmapped [OF True this, of P L ids rp] s
    have e: "ids1 - {rid} = ids - {rid}" "rp1 = rp" by simp_all
    from Cons.IH [OF um, of ids1 rp1] True s e show ?thesis
      by (simp add: without_route_def)
  next
    case False
    from route_step_other [OF False, of P L ids rp] s
    have "route_step P L r (ids - {rid}, rp) = (ids1 - {rid}, rp1)"
      by (simp add: prod_eq_iff)
    with Cons.IH [OF um, of ids1 rp1] False s show ?thesis
      by (simp add: without_route_def)
  qed
qed

lemma fold_route_step_product:
  assumes "unmapped_route routes rid"
  shows "snd (fold (route_step P L) routes (ids, rp)) rid = rp rid"
  using assms
proof (induction routes arbitrary: ids rp)
  case Nil
  then show ?case by simp
next
  case (Cons r routes)
  from Cons.prems have um: "unmapped_route routes rid"
    by (simp add: unmapped_route_def)
  obtain ids1 rp1 where s: "route_step P L r (ids, rp) = (ids1, rp1)"
    by (cases "route_step P L r (ids, rp)")
  have "rp1 rid = rp rid"
  proof (cases "r_route_id r = Some rid")
    case True
    with Cons.prems have "route_type_of r = None"
      by (simp add: unmapped_route_def)
    from route_step_unmapped(2) [OF True this, of P L ids rp] s show ?thesis by simp
  next
    case False
    with s show ?thesis
      by (auto simp: route_step_def Let_def split: option.splits if_splits)
  qed
  with Cons.IH [OF um, of ids1 rp1] s show ?case by simp
qed

lemma get_set_delete: "k \<noteq> rid \<Longrightarrow> get_set (AList.delete rid al) k = get_set al k"
  by (simp add: get_set_def)

lemma trip_step_delete:
  "trip_step (ids - {rid}) t (AList.delete rid al) = AList.delete rid (trip_step ids t al)"
  by (auto simp: trip_step_def get_set_delete delete_update delete_update_same
      split: option.splits)

lemma fold_trip_step_delete:
  "fold (trip_step (ids - {rid})) trips (AList.delete rid al)
     = AList.delete rid (fold (trip_step ids) trips al)"
  by (induction trips arbitrary: al) (simp_all add: trip_step_delete)

lemma fold_route_stops_step_delete:
  "fold (route_stops_step it ts) (AList.delete rid al) (AList.delete rid acc)
     = AList.delete rid (fold (route_stops_step it ts) al acc)"
proof (induction al arbitrary: acc)
  case Nil
  then show ?case by simp
next
  case (Cons item al)
  obtain k tids where item: "item = (k, tids)" by (cases item)
  show ?case
  proof (cases "k = rid")
    case True
    with Cons.IH [of "AList.update rid (all_stops_of it ts tids) acc"] item show ?thesis
      by (simp add: route_stops_step_def delete_update_same)
  next
    case False
    with Cons.IH [of "AList.update k (all_stops_of it ts tids) acc"] item show ?thesis
      by (simp add: route_stops_step_def delete_update)
  qed
qed

lemma mapping_step_unmapped:
  "rp rid = None \<Longrightarrow> mapping_step it routes rp sl sm (rid, sids) m = m"
  by (simp add: mapping_step_def Let_def split: option.splits)

lemma mapping_step_without:
  assumes "k \<noteq> rid"
  shows "mapping_step it (without_route rid routes) rp sl sm (k, sids) m
           = mapping_step it routes rp sl sm (k, sids) m"
proof -
  have "find (\<lambda>x. r_route_id x = Some k) (filter (\<lambda>r. r_route_id r \<noteq> Some rid) routes)
          = find (\<lambda>x. r_route_id x = Some k) routes"
    by (rule find_filter) (use assms in auto)
  then show ?thesis
    by (simp add: mapping_step_def without_route_def)
qed

lemma fold_mapping_step_delete:
  assumes "rp rid = None"
  shows "fold (mapping_step it (without_route rid routes) rp sl sm) (AList.delete rid al) m
           = fold (mapping_step it routes rp sl sm) al m"
proof (induction al arbitrary: m)
  case Nil
  then show ?case by simp
next
  case (Cons item al)
  obtain k sids where item: "item = (k, sids)" by (cases item)
  show ?case
  proof (cases "k = rid")
    case True
    with Cons.IH item show ?thesis
      by (simp add: mapping_step_unmapped [of rp rid, OF assms])
  next
    case False
    with Cons.IH item show ?thesis
      by (simp add: mapping_step_without)
  qed
qed

text \<open>
  C4. A route whose type has no entry in the lookup table contributes nothing to the
  index: for every feed, every product and label filter (also none), every iteration
  order of the sets and every station cache, the index built from the feed is the index
  built from the feed without the rows of that route. No list of the mapping, under a
  product or under \<^verbatim>\<open>"ALL"\<close>, owes a station id to it.
\<close>

theorem unmapped_route_contributes_nothing:
  assumes "unmapped_route routes rid"
  shows "build_label_index it src products labels (without_route rid routes)
           trips stop_times stops stations
         = build_label_index it src products labels routes trips stop_times stops stations"
proof -
  let ?P = "norm_products products" and ?L = "norm_labels labels"
  let ?full = "fold (route_step ?P ?L) routes ({}, Map.empty)"
  let ?less = "fold (route_step ?P ?L) (without_route rid routes) ({}, Map.empty)"
  from fold_route_step_without [OF assms, of ?P ?L "{}" Map.empty]
  have ids: "fst ?less = fst ?full - {rid}" and rp: "snd ?less = snd ?full"
    by simp_all
  have none: "snd ?full rid = None"
    using fold_route_step_product [OF assms, of ?P ?L "{}" Map.empty] by simp
  let ?ts = "fold stop_time_step stop_times Map.empty"
  have trips: "fold (trip_step (fst ?less)) trips []
      = AList.delete rid (fold (trip_step (fst ?full)) trips [])"
    unfolding ids using fold_trip_step_delete [of "fst ?full" rid trips "[]"] by simp
  have stops: "fold (route_stops_step it ?ts) (fold (trip_step (fst ?less)) trips []) []
      = AList.delete rid
          (fold (route_stops_step it ?ts) (fold (trip_step (fst ?full)) trips []) [])"
    unfolding trips using fold_route_stops_step_delete [of it ?ts rid _ "[]"] by simp
  show ?thesis
    unfolding build_label_index_def Let_def case_prod_beta stops rp
    by (simp add: fold_mapping_step_delete [of "snd ?full" rid, OF none])
qed

lemma ex_mapping:
  "mapping (build_label_index sorted_list_of_set ''feed'' None None
              ex_routes ex_trips ex_stop_times ex_stops ex_stations)
     = [(''TRAM'', [(''19'', [''de:1:10'', ''de:1:11''])]),
        (''ALL'', [(''19'', [''de:1:10'', ''de:1:11''])])]"
  by code_simp

text \<open>
  A witness: in the small feed the route R2 has the unmapped type 7, a trip, a stop and
  a station of the cache behind that stop; with no filter at all the index holds the
  stations of the tram route only, with R2 in the feed and without it.
\<close>

theorem unmapped_route_contributes_nothing_witness:
  "unmapped_route ex_routes ''R2''
   \<and> mapping (build_label_index sorted_list_of_set ''feed'' None None
                (without_route ''R2'' ex_routes) ex_trips ex_stop_times ex_stops ex_stations)
       = [(''TRAM'', [(''19'', [''de:1:10'', ''de:1:11''])]),
          (''ALL'', [(''19'', [''de:1:10'', ''de:1:11''])])]"
proof -
  have u: "unmapped_route ex_routes ''R2''"
    by code_simp
  from unmapped_route_contributes_nothing [OF u] ex_mapping u show ?thesis
    by simp
qed

section \<open>The reference index: determinism and sorted lists\<close>

lemma fold_union:
  "fold (\<lambda>x acc. acc \<union> f x) xs A = A \<union> (\<Union>x \<in> set xs. f x)"
  by (induction xs arbitrary: A) auto

lemma all_stops_of_set:
  assumes "iteration_order it" "finite S"
  shows "all_stops_of it ts S = (\<Union>tid \<in> S. lookup_set ts tid)"
  using assms by (simp add: all_stops_of_def fold_union iteration_order_def)

lemma selected_ids_of_set:
  assumes "iteration_order it" "finite S"
  shows "selected_ids_of it sm S = (\<Union>k \<in> S. lookup_set sm k)"
  using assms by (simp add: selected_ids_of_def fold_union iteration_order_def)

lemma base3_keys_of_fold:
  "base3_keys_of it sl S = fold (\<lambda>sid acc. acc \<union> stop_key sl sid) (it S) {}"
proof -
  have "(\<lambda>sid base3_keys.
            case sl sid of
              None \<Rightarrow> base3_keys
            | Some sinfo \<Rightarrow>
                let parent = strip (or_empty (s_parent_station sinfo));
                    use_id = (if parent \<noteq> [] then parent else sid)
                in insert (base3 use_id) base3_keys)
        = (\<lambda>sid acc. acc \<union> stop_key sl sid)"
    by (auto simp: fun_eq_iff stop_key_def Let_def split: option.splits)
  then show ?thesis by (simp add: base3_keys_of_def)
qed

lemma finite_stop_key: "finite (stop_key sl sid)"
  by (simp add: stop_key_def split: option.splits)

lemma finite_base3_keys_of: "finite (base3_keys_of it sl S)"
  by (simp add: base3_keys_of_fold fold_union finite_stop_key)

lemma base3_keys_of_set:
  assumes "iteration_order it" "finite S"
  shows "base3_keys_of it sl S = (\<Union>sid \<in> S. stop_key sl sid)"
  using assms by (simp add: base3_keys_of_fold fold_union iteration_order_def)

lemma set_update_cases:
  "(k', v') \<in> set (AList.update k v al) \<Longrightarrow> (k', v') = (k, v) \<or> (k', v') \<in> set al"
  by (induction al) (auto split: if_splits)

lemma ball_update:
  "\<forall>p \<in> set al. Q p \<Longrightarrow> Q (k, v) \<Longrightarrow> \<forall>p \<in> set (AList.update k v al). Q p"
  by (induction al) auto

lemma finite_get_set: "finite_values al \<Longrightarrow> finite (get_set al k)"
  by (auto simp: finite_values_def get_set_def split: option.splits dest: map_of_SomeD)

lemma finite_values_update:
  "finite_values al \<Longrightarrow> finite S \<Longrightarrow> finite_values (AList.update k S al)"
  unfolding finite_values_def by (auto dest: set_update_cases)

lemma finite_values_trip_step: "finite_values al \<Longrightarrow> finite_values (trip_step ids t al)"
  by (auto simp: trip_step_def finite_values_update finite_get_set split: option.splits)

lemma finite_values_trips: "finite_values al \<Longrightarrow> finite_values (fold (trip_step ids) trips al)"
  by (induction trips arbitrary: al) (simp_all add: finite_values_trip_step)

lemma finite_lookup_set: "finite_range m \<Longrightarrow> finite (lookup_set m k)"
  by (auto simp: finite_range_def lookup_set_def split: option.splits)

lemma finite_range_stop_time_step: "finite_range m \<Longrightarrow> finite_range (stop_time_step st m)"
  by (auto simp: stop_time_step_def finite_range_def lookup_set_def split: option.splits)

lemma finite_range_stop_times: "finite_range m \<Longrightarrow> finite_range (fold stop_time_step sts m)"
  by (induction sts arbitrary: m) (simp_all add: finite_range_stop_time_step)

lemma finite_all_stops_of: "finite_range ts \<Longrightarrow> finite (all_stops_of it ts S)"
  by (simp add: all_stops_of_def fold_union finite_lookup_set)

lemma finite_values_route_stops:
  "finite_range ts \<Longrightarrow> finite_values acc \<Longrightarrow>
   finite_values (fold (route_stops_step it ts) al acc)"
  by (induction al arbitrary: acc)
    (auto simp: route_stops_step_def finite_values_update finite_all_stops_of)

lemma fold_route_stops_step_iteration:
  assumes "iteration_order it1" "iteration_order it2" "finite_values al"
  shows "fold (route_stops_step it1 ts) al acc = fold (route_stops_step it2 ts) al acc"
  using assms(3)
proof (induction al arbitrary: acc)
  case Nil
  then show ?case by simp
next
  case (Cons item al)
  obtain k S where item: "item = (k, S)" by (cases item)
  with Cons.prems have "finite S" and fv: "finite_values al"
    by (simp_all add: finite_values_def)
  then have "all_stops_of it1 ts S = all_stops_of it2 ts S"
    using assms(1,2) by (simp add: all_stops_of_set)
  with Cons.IH [OF fv] item show ?case by (simp add: route_stops_step_def)
qed

lemma mapping_step_iteration:
  assumes "iteration_order it1" "iteration_order it2" "finite S"
  shows "mapping_step it1 routes rp sl sm (k, S) m = mapping_step it2 routes rp sl sm (k, S) m"
proof -
  have b: "base3_keys_of it1 sl S = base3_keys_of it2 sl S"
    using assms by (simp add: base3_keys_of_set)
  have "selected_ids_of it1 sm (base3_keys_of it2 sl S)
          = selected_ids_of it2 sm (base3_keys_of it2 sl S)"
    using assms(1,2) finite_base3_keys_of by (simp add: selected_ids_of_set)
  with b show ?thesis
    by (simp add: mapping_step_def Let_def cong: option.case_cong if_cong)
qed

lemma fold_mapping_step_iteration:
  assumes "iteration_order it1" "iteration_order it2" "finite_values al"
  shows "fold (mapping_step it1 routes rp sl sm) al m = fold (mapping_step it2 routes rp sl sm) al m"
  using assms(3)
proof (induction al arbitrary: m)
  case Nil
  then show ?case by simp
next
  case (Cons item al)
  obtain k S where item: "item = (k, S)" by (cases item)
  with Cons.prems have "finite S" and fv: "finite_values al"
    by (simp_all add: finite_values_def)
  with Cons.IH [OF fv] item mapping_step_iteration [OF assms(1,2)] show ?case by simp
qed

lemma sorted_lists_store_ids:
  assumes "sorted_lists m"
  shows "sorted_lists (store_ids product lab sel m)"
proof -
  define inner where "inner = (case map_of m product of None \<Rightarrow> [] | Some x \<Rightarrow> x)"
  define ids where "ids = sorted_list_of_set
      (set (case map_of inner lab of None \<Rightarrow> [] | Some x \<Rightarrow> x) \<union> sel)"
  have inner: "\<forall>(l, xs) \<in> set inner. sorted xs \<and> distinct xs"
  proof (cases "map_of m product")
    case None
    then show ?thesis by (simp add: inner_def)
  next
    case (Some x)
    then have "(product, x) \<in> set m" by (rule map_of_SomeD)
    with assms Some show ?thesis
      unfolding inner_def sorted_lists_def by auto
  qed
  have ids: "sorted ids \<and> distinct ids"
    by (simp add: ids_def)
  have "\<forall>(l, xs) \<in> set (AList.update lab ids inner). sorted xs \<and> distinct xs"
    using inner ids by (intro ball_update) simp_all
  then have "sorted_lists (AList.update product (AList.update lab ids inner) m)"
    using assms unfolding sorted_lists_def by (intro ball_update) simp_all
  then show ?thesis by (simp add: store_ids_def inner_def ids_def Let_def)
qed

lemma sorted_lists_mapping_step:
  "sorted_lists m \<Longrightarrow> sorted_lists (mapping_step it routes rp sl sm item m)"
  by (auto simp: mapping_step_def Let_def sorted_lists_store_ids split: option.splits prod.splits)

lemma sorted_lists_fold:
  "sorted_lists m \<Longrightarrow> sorted_lists (fold (mapping_step it routes rp sl sm) al m)"
  by (induction al arbitrary: m) (simp_all add: sorted_lists_mapping_step)

text \<open>
  C8. Two builds from the same tables and the same station cache give the same index,
  whatever the orders in which the two runs iterate their sets; and every list of
  station ids of a built index is in ascending order and free of duplicates.
\<close>

theorem build_label_index_deterministic_sorted:
  "(iteration_order it1 \<and> iteration_order it2 \<longrightarrow>
      build_label_index it1 src products labels routes trips stop_times stops stations
        = build_label_index it2 src products labels routes trips stop_times stops stations)
   \<and> sorted_lists
        (mapping (build_label_index it1 src products labels routes trips stop_times stops stations))"
proof (intro conjI impI)
  assume it: "iteration_order it1 \<and> iteration_order it2"
  let ?ids = "fst (fold (route_step (norm_products products) (norm_labels labels)) routes
                ({}, Map.empty))"
  let ?ts = "fold stop_time_step stop_times Map.empty"
  let ?rt = "fold (trip_step ?ids) trips []"
  have rt: "finite_values ?rt"
    by (rule finite_values_trips) (simp add: finite_values_def)
  have ts: "finite_range ?ts"
    by (rule finite_range_stop_times) (simp add: finite_range_def)
  have rs: "fold (route_stops_step it1 ?ts) ?rt [] = fold (route_stops_step it2 ?ts) ?rt []"
    using it rt by (intro fold_route_stops_step_iteration) simp_all
  have fv: "finite_values (fold (route_stops_step it2 ?ts) ?rt [])"
    using ts by (rule finite_values_route_stops) (simp add: finite_values_def)
  show "build_label_index it1 src products labels routes trips stop_times stops stations
        = build_label_index it2 src products labels routes trips stop_times stops stations"
    unfolding build_label_index_def Let_def case_prod_beta rs
    using it fv by (simp add: fold_mapping_step_iteration)
next
  have "sorted_lists (fold (mapping_step it1 routes rp sl sm) al [])" for rp sl sm al
    by (rule sorted_lists_fold) (simp add: sorted_lists_def)
  then show "sorted_lists
        (mapping (build_label_index it1 src products labels routes trips stop_times stops stations))"
    unfolding build_label_index_def Let_def case_prod_beta by simp
qed

text \<open>
  A witness: the small feed built with the sets iterated in ascending order and in
  descending order.
\<close>

theorem build_label_index_deterministic_sorted_witness:
  "iteration_order sorted_list_of_set
   \<and> iteration_order (\<lambda>S. rev (sorted_list_of_set S))
   \<and> build_label_index (\<lambda>S. rev (sorted_list_of_set S)) ''feed'' None None
         ex_routes ex_trips ex_stop_times ex_stops ex_stations
       = build_label_index sorted_list_of_set ''feed'' None None
           ex_routes ex_trips ex_stop_times ex_stops ex_stations
   \<and> mapping (build_label_index (\<lambda>S. rev (sorted_list_of_set S)) ''feed'' None None
                ex_routes ex_trips ex_stop_times ex_stops ex_stations)
       = [(''TRAM'', [(''19'', [''de:1:10'', ''de:1:11''])]),
          (''ALL'', [(''19'', [''de:1:10'', ''de:1:11''])])]"
proof -
  have i: "iteration_order sorted_list_of_set" "iteration_order (\<lambda>S. rev (sorted_list_of_set S))"
    by (simp_all add: iteration_order_def)
  from build_label_index_deterministic_sorted
    [of "\<lambda>S. rev (sorted_list_of_set S)" sorted_list_of_set "''feed''" None None
        ex_routes ex_trips ex_stop_times ex_stops ex_stations] i
  have "build_label_index (\<lambda>S. rev (sorted_list_of_set S)) ''feed'' None None
         ex_routes ex_trips ex_stop_times ex_stops ex_stations
       = build_label_index sorted_list_of_set ''feed'' None None
           ex_routes ex_trips ex_stop_times ex_stops ex_stations"
    by simp
  with i ex_mapping show ?thesis by simp
qed

end
